theory Spec2Isabelle
  imports Main "HOL-Library.AList"
begin

section \<open>Values\<close>

text \<open>
  Modification times are JavaScript numbers. The engine only ever compares them, takes
  their maximum and uses the two infinities as sentinels, so a number is modelled as an
  integer count of milliseconds or one of the infinities. NaN is outside the model.
\<close>

datatype jsnum = NegInf | Fin int | PosInf

instantiation jsnum :: linorder
begin

definition less_eq_jsnum :: "jsnum \<Rightarrow> jsnum \<Rightarrow> bool" where
  "less_eq_jsnum a b =
     (case a of
        NegInf \<Rightarrow> True
      | Fin x \<Rightarrow> (case b of NegInf \<Rightarrow> False | Fin y \<Rightarrow> x \<le> y | PosInf \<Rightarrow> True)
      | PosInf \<Rightarrow> (case b of PosInf \<Rightarrow> True | _ \<Rightarrow> False))"

definition less_jsnum :: "jsnum \<Rightarrow> jsnum \<Rightarrow> bool" where
  "less_jsnum a b = (a \<le> b \<and> \<not> b \<le> (a::jsnum))"

instance
proof
  fix x y z :: jsnum
  show "(x < y) = (x \<le> y \<and> \<not> y \<le> x)"
    by (simp add: less_jsnum_def)
  show "x \<le> x"
    by (cases x) (simp_all add: less_eq_jsnum_def)
  show "x \<le> y \<Longrightarrow> y \<le> z \<Longrightarrow> x \<le> z"
    by (cases x; cases y; cases z) (simp_all add: less_eq_jsnum_def)
  show "x \<le> y \<Longrightarrow> y \<le> x \<Longrightarrow> x = y"
    by (cases x; cases y) (simp_all add: less_eq_jsnum_def)
  show "x \<le> y \<or> y \<le> x"
    by (cases x; cases y) (auto simp add: less_eq_jsnum_def)
qed

end

text \<open>
  Anything thrown or rejected. \<open>errName\<close> is the \<open>name\<close> property that the code
  inspects (\<open>NotFound\<close> for a missing path), \<open>tdBuildTrace\<close> the string-array
  property by which a traced failure is recognised. Message texts are kept symbolic.
\<close>

datatype message =
    BothIsDirectoryAndTargetType string
  | NoPrereqsForArgument string string
  | UnrecognizedTdbArgument string
  | BothInvokeAndCmd string
  | FailedToRunCommand "string list" string
  | ExitedWithStatus "string list" int
  | ShouldBeRegularFileButIsNot string
  | ShouldBeRegularFileButDidNotExist string
  | ShouldBeDirectoryButIsNot string
  | ShouldBeDirectoryButDidNotExist string
  | DoesNotExistAndNoRule string
  | UnrecognizedArgument string
  | BadOperation
  | Other string

datatype error = Error (errName: string) (errMessage: message) (tdBuildTrace: "string list option")

definition BuildError :: "message \<Rightarrow> string list \<Rightarrow> error" where
  "BuildError m trace = Error ''Error'' m (Some trace)"


section \<open>The filesystem and the freshness oracle (FSUtil.ts)\<close>

text \<open>
  What \<open>Deno.stat\<close> and \<open>Deno.readDir\<close> report below a path: a failed stat with
  its error, a regular file, or a directory with its entries; \<open>mtime\<close> may be null.
  Nodes that are neither file nor directory are not modelled.
\<close>

datatype fsnode =
    NoStat error
  | RegularFile "int option"
  | Folder "int option" "(string \<times> fsnode) list"

datatype onNotFound = Value jsnum | Raise

definition ownMtime :: "int option \<Rightarrow> jsnum" where
  "ownMtime mt = (case mt of Some ms \<Rightarrow> Fin ms | None \<Rightarrow> NegInf)"

fun mtimeR_node :: "fsnode \<Rightarrow> onNotFound \<Rightarrow> jsnum \<Rightarrow> error + jsnum"
  and mtimeR_entries :: "(string \<times> fsnode) list \<Rightarrow> onNotFound \<Rightarrow> jsnum \<Rightarrow> jsnum \<Rightarrow> error + jsnum"
where
  "mtimeR_node (NoStat e) onNF lim =
     (if errName e = ''NotFound'' \<and> onNF \<noteq> Raise
      then (case onNF of Value v \<Rightarrow> Inr v | Raise \<Rightarrow> Inl e)
      else Inl e)"
| "mtimeR_node (RegularFile mt) onNF lim =
     (if ownMtime mt > lim then Inr PosInf else Inr (ownMtime mt))"
| "mtimeR_node (Folder mt entries) onNF lim =
     (if ownMtime mt > lim then Inr PosInf
      else mtimeR_entries entries onNF lim (ownMtime mt))"
| "mtimeR_entries [] onNF lim latest = Inr latest"
| "mtimeR_entries (entry # entries) onNF lim latest =
     (if fst entry = ''.'' \<or> fst entry = ''..''
      then mtimeR_entries entries onNF lim latest
      else (case mtimeR_node (snd entry) onNF lim of
              Inl e \<Rightarrow> Inl e
            | Inr mt \<Rightarrow> mtimeR_entries entries onNF lim (max latest mt)))"


text \<open>
  The part of the outside world the engine touches: what is at each path, what
  \<open>Deno.remove\<close> throws for a path (if anything besides the path being absent), and
  the time a freshly written directory entry is stamped with.
\<close>

record world =
  files :: "string \<Rightarrow> fsnode"
  removeFailure :: "string \<Rightarrow> error option"
  clock :: int

definition notFound :: error where
  "notFound = Error ''NotFound'' (Other ''No such file or directory'') None"

definition mtimeR :: "world \<Rightarrow> string \<Rightarrow> onNotFound \<Rightarrow> jsnum \<Rightarrow> error + jsnum" where
  "mtimeR w path onNF lim = mtimeR_node (files w path) onNF lim"

definition denoRemove :: "string \<Rightarrow> world \<Rightarrow> error option \<times> world" where
  "denoRemove path w =
     (case removeFailure w path of
        Some e \<Rightarrow> (Some e, w)
      | None \<Rightarrow>
          (case files w path of
             NoStat e \<Rightarrow> (Some e, w)
           | _ \<Rightarrow> (None, w\<lparr>files := (files w)(path := NoStat notFound)\<rparr>)))"

definition makeRemoved :: "string \<Rightarrow> world \<Rightarrow> error option \<times> world" where
  "makeRemoved path w =
     (case denoRemove path w of
        (Some err, w') \<Rightarrow> if errName err = ''NotFound'' then (None, w') else (Some err, w')
      | (None, w') \<Rightarrow> (None, w'))"

definition touchDir :: "string \<Rightarrow> world \<Rightarrow> error option \<times> world" where
  "touchDir dir w =
     (case files w dir of
        Folder mt entries \<Rightarrow>
          (None, w\<lparr>files := (files w)(dir := Folder (Some (clock w)) entries)\<rparr>)
      | RegularFile mt \<Rightarrow> (Some (Error ''NotADirectory'' (Other dir) None), w)
      | NoStat e \<Rightarrow> (Some e, w))"

section \<open>Rules (Builder.ts)\<close>

record BuildContext =
  prereqNames :: "string list"
  targetName :: string
  buildRuleTrace :: "string list"

text \<open>
  A build function is user code: it changes the world and settles with or without an
  error. Build functions that ask the builder for further targets are outside the model.
\<close>

type_synonym BuildFunction = "BuildContext \<Rightarrow> world \<Rightarrow> error option \<times> world"

type_synonym BuildFunctionTransformer = "BuildFunction \<Rightarrow> BuildFunction"

datatype TargetTypeName = Directory | File | Phony | Auto

record BuildRule =
  description :: "string option"
  prereqs :: "string list option"
  invoke :: "BuildFunction option"
  cmd :: "string list option"
  buildFunctionTransformer :: "BuildFunctionTransformer option"
  keepOnFailure :: "bool option"
  targetType :: "TargetTypeName option"
  isDirectory :: "bool option"

fun deduplicateFrom :: "'a set \<Rightarrow> 'a list \<Rightarrow> 'a list" where
  "deduplicateFrom alreadyMentioned [] = []"
| "deduplicateFrom alreadyMentioned (thing # stuff) =
     (if thing \<in> alreadyMentioned then deduplicateFrom alreadyMentioned stuff
      else thing # deduplicateFrom (insert thing alreadyMentioned) stuff)"

definition deduplicate :: "'a list \<Rightarrow> 'a list" where
  "deduplicate stuff = deduplicateFrom {} stuff"

definition getRuleTargetType :: "BuildRule \<Rightarrow> string \<Rightarrow> BuildContext \<Rightarrow> error + TargetTypeName" where
  "getRuleTargetType rule t ctx =
     (if isDirectory rule \<noteq> None \<and> targetType rule \<noteq> None
      then Inl (BuildError (BothIsDirectoryAndTargetType t) (buildRuleTrace ctx))
      else (case targetType rule of Some ty \<Rightarrow> Inr ty | None \<Rightarrow> Inr Auto))"

definition noLineTerminator :: "string \<Rightarrow> bool" where
  "noLineTerminator s = (CHR 0x0A \<notin> set s \<and> CHR 0x0D \<notin> set s)"

definition startsWith :: "string \<Rightarrow> string \<Rightarrow> bool" where
  "startsWith s p = (take (length p) s = p)"

definition rewriteArg :: "string \<Rightarrow> BuildContext \<Rightarrow> error + string list" where
  "rewriteArg arg ctx =
     (if startsWith arg ''tdb:literal:'' \<and> noLineTerminator (drop 12 arg) then Inr [drop 12 arg]
      else if arg = ''tdb:target'' then Inr [targetName ctx]
      else if arg = ''tdb:prereq'' then
        (case prereqNames ctx of
           [] \<Rightarrow> Inl (BuildError (NoPrereqsForArgument arg (targetName ctx)) (buildRuleTrace ctx))
         | p # _ \<Rightarrow> Inr [p])
      else if arg = ''tdb:prereqs'' then Inr (prereqNames ctx)
      else if startsWith arg ''tdb:'' \<and> noLineTerminator (drop 4 arg)
        then Inl (BuildError (UnrecognizedTdbArgument arg) (buildRuleTrace ctx))
      else Inr [arg])"

fun rewriteCommand :: "string list \<Rightarrow> BuildContext \<Rightarrow> error + string list" where
  "rewriteCommand [] ctx = Inr []"
| "rewriteCommand (arg # rest) ctx =
     (case rewriteArg arg ctx of
        Inl e \<Rightarrow> Inl e
      | Inr pushed \<Rightarrow>
          (case rewriteCommand rest ctx of
             Inl e \<Rightarrow> Inl e
           | Inr rewritten \<Rightarrow> Inr (pushed @ rewritten)))"

text \<open>What \<open>Deno.run\<close> and waiting for the process give: no process, or its exit status.\<close>

datatype runResult = RunFailed string | Exited bool int

type_synonym processRunner = "string list \<Rightarrow> world \<Rightarrow> runResult \<times> world"

definition runCommand :: "processRunner \<Rightarrow> string list \<Rightarrow> BuildFunction" where
  "runCommand denoRun command ctx w =
     (case denoRun command w of
        (RunFailed m, w') \<Rightarrow>
          (Some (BuildError (FailedToRunCommand command m) (buildRuleTrace ctx)), w')
      | (Exited success code, w') \<Rightarrow>
          if success then (None, w')
          else (Some (BuildError (ExitedWithStatus command code) (buildRuleTrace ctx)), w'))"

definition getRuleBuildFunction ::
  "processRunner \<Rightarrow> BuildRule \<Rightarrow> BuildContext \<Rightarrow> error + BuildFunction option" where
  "getRuleBuildFunction denoRun rule ctx =
     (if cmd rule \<noteq> None \<and> invoke rule \<noteq> None
      then Inl (BuildError (BothInvokeAndCmd (targetName ctx)) (buildRuleTrace ctx))
      else (case invoke rule of
              Some f \<Rightarrow> Inr (Some f)
            | None \<Rightarrow>
                (case cmd rule of
                   Some rawCmd \<Rightarrow>
                     (case rewriteCommand rawCmd ctx of
                        Inl e \<Rightarrow> Inl e
                      | Inr command \<Rightarrow> Inr (Some (runCommand denoRun command)))
                 | None \<Rightarrow> Inr None)))"

definition getRuleBuildFunctionTransformer :: "BuildRule \<Rightarrow> BuildFunctionTransformer" where
  "getRuleBuildFunctionTransformer rule =
     (case buildFunctionTransformer rule of Some tr \<Rightarrow> tr | None \<Rightarrow> (\<lambda>bf. bf))"

datatype FailureFileAction = Delete | Keep

definition getFailureFileAction :: "BuildRule \<Rightarrow> FailureFileAction" where
  "getFailureFileAction rule =
     (case keepOnFailure rule of
        Some keep \<Rightarrow> if keep then Keep else Delete
      | None \<Rightarrow> if targetType rule = Some File then Delete else Keep)"

definition verifyTarget :: "string \<Rightarrow> TargetTypeName \<Rightarrow> BuildContext \<Rightarrow> world \<Rightarrow> error option" where
  "verifyTarget t ty ctx w =
     (case ty of
        File \<Rightarrow>
          (case files w t of
             RegularFile mt \<Rightarrow> None
           | Folder mt entries \<Rightarrow>
               Some (BuildError (ShouldBeRegularFileButIsNot t) (buildRuleTrace ctx))
           | NoStat e \<Rightarrow>
               if errName e = ''NotFound''
               then Some (BuildError (ShouldBeRegularFileButDidNotExist t) (buildRuleTrace ctx))
               else Some e)
      | Directory \<Rightarrow>
          (case files w t of
             Folder mt entries \<Rightarrow> None
           | RegularFile mt \<Rightarrow>
               Some (BuildError (ShouldBeDirectoryButIsNot t) (buildRuleTrace ctx))
           | NoStat e \<Rightarrow>
               if errName e = ''NotFound''
               then Some (BuildError (ShouldBeDirectoryButDidNotExist t) (buildRuleTrace ctx))
               else Some e)
      | _ \<Rightarrow> None)"

definition postProcessTarget :: "string \<Rightarrow> TargetTypeName \<Rightarrow> world \<Rightarrow> error option \<times> world" where
  "postProcessTarget t ty w = (case ty of Directory \<Rightarrow> touchDir t w | _ \<Rightarrow> (None, w))"

section \<open>The builder (Builder.ts)\<close>

text \<open>
  A rule table is a JavaScript object used as a dictionary: keys in insertion order,
  assignment to a present key replacing its value in place.
\<close>

type_synonym rules = "(string \<times> BuildRule) list"

datatype ConcurrencyMode = Parallel | Serial

text \<open>
  What a Builder is constructed with and never changes. \<open>fetchGeneratedTargets\<close> is what
  the overridable hook of that name resolves to (or rejects with); \<open>denoRun\<close> stands for
  the operating system running a command.
\<close>

record Builder =
  buildRules :: rules
  globalPrereqs :: "string list"
  defaultTargetNames :: "string list"
  fetchGeneratedTargets :: "error + rules"
  denoRun :: processRunner

text \<open>
  A promise is followed to what it finally does: it resolves, it rejects, or it never
  settles. An entry of the table \<open>buildPromises\<close> is a promise that \<open>build\<close> has
  created and whose body has not run yet (with the trace of the request that created it
  and the rule found for it), one whose body is running, or one that is done.
\<close>

datatype 'a outcome = Resolved 'a | Rejected error | Hangs

datatype promise =
    Registered "string list" "error + BuildRule option"
  | InFlight
  | Finished "jsnum outcome"

text \<open>
  The mutable fields of a Builder and the world it works in. \<open>hookCalls\<close>,
  \<open>created\<close> and \<open>invoked\<close> are observations, not fields of the class: how often
  \<open>fetchGeneratedTargets\<close> was called, the targets for which \<open>build\<close> created a
  promise, and the targets whose wrapped build function the builder called, in order.
\<close>

record state =
  outside :: world
  buildPromises :: "string \<Rightarrow> promise option"
  allTargetsPromise :: "(error + rules) option"
  concurrencyMode :: ConcurrencyMode
  hookCalls :: nat
  created :: "string list"
  invoked :: "string list"

definition newBuilder :: "ConcurrencyMode option \<Rightarrow> world \<Rightarrow> state" where
  "newBuilder mode w =
     \<lparr> outside = w, buildPromises = Map.empty, allTargetsPromise = None,
       concurrencyMode = (case mode of Some m \<Rightarrow> m | None \<Rightarrow> Parallel),
       hookCalls = 0, created = [], invoked = [] \<rparr>"

definition assignAll :: "rules \<Rightarrow> rules \<Rightarrow> rules" where
  "assignAll allTargets source = foldl (\<lambda>acc entry. AList.update (fst entry) (snd entry) acc) allTargets source"

definition fetchAllBuildRules :: "Builder \<Rightarrow> state \<Rightarrow> (error + rules) \<times> state" where
  "fetchAllBuildRules b s =
     (case allTargetsPromise s of
        Some cached \<Rightarrow> (cached, s)
      | None \<Rightarrow>
          (let allTargets = assignAll [] (buildRules b);
               s' = s\<lparr>hookCalls := hookCalls s + 1\<rparr>
           in case fetchGeneratedTargets b of
                Inl e \<Rightarrow> (Inl e, s')
              | Inr generatedTargets \<Rightarrow> (Inr (assignAll allTargets generatedTargets), s')))"

definition fetchBuildRuleForTarget :: "Builder \<Rightarrow> string \<Rightarrow> state \<Rightarrow> (error + BuildRule option) \<times> state" where
  "fetchBuildRuleForTarget b t s =
     (case fetchAllBuildRules b s of
        (Inl e, s') \<Rightarrow> (Inl e, s')
      | (Inr targets, s') \<Rightarrow> (Inr (map_of targets t), s'))"

text \<open>
  The body that the wrapper transformer receives (lines 361 to 385): run the build
  function if there is one, apply the failure file policy when it fails, otherwise
  verify and post-process the target.
\<close>

definition verifyAndPostProcess :: "string \<Rightarrow> TargetTypeName \<Rightarrow> BuildFunction" where
  "verifyAndPostProcess t ty ctx w =
     (case verifyTarget t ty ctx w of
        Some e \<Rightarrow> (Some e, w)
      | None \<Rightarrow> postProcessTarget t ty w)"

definition innerBuildFunction ::
  "BuildRule \<Rightarrow> string \<Rightarrow> TargetTypeName \<Rightarrow> BuildFunction option \<Rightarrow> BuildFunction" where
  "innerBuildFunction rule t ty buildFunction ctx w =
     (case buildFunction of
        Some bf \<Rightarrow>
          (case bf ctx w of
             (Some err, w1) \<Rightarrow>
               (case getFailureFileAction rule of
                  Delete \<Rightarrow>
                    (case makeRemoved t w1 of
                       (Some removalError, w2) \<Rightarrow> (Some removalError, w2)
                     | (None, w2) \<Rightarrow> (Some err, w2))
                | Keep \<Rightarrow> (Some err, w1))
           | (None, w1) \<Rightarrow> verifyAndPostProcess t ty ctx w1)
      | None \<Rightarrow> verifyAndPostProcess t ty ctx w)"

definition currentMtime :: "TargetTypeName \<Rightarrow> world \<Rightarrow> string \<Rightarrow> error + jsnum" where
  "currentMtime ty w t =
     (if ty = Phony then Inr NegInf
      else (case mtimeR w t (Value NegInf) PosInf of
              Inl e \<Rightarrow> if errName e = ''NotFound'' then Inr NegInf else Inl e
            | Inr m \<Rightarrow> Inr m))"

definition rereadMtime :: "TargetTypeName \<Rightarrow> world \<Rightarrow> string \<Rightarrow> error + jsnum" where
  "rereadMtime ty w t = (if ty = Phony then Inr PosInf else mtimeR w t (Value NegInf) PosInf)"

definition makeContext :: "Builder \<Rightarrow> string \<Rightarrow> BuildRule \<Rightarrow> string list \<Rightarrow> BuildContext" where
  "makeContext b t rule parentBuildRuleTrace =
     \<lparr> prereqNames = (case prereqs rule of Some ps \<Rightarrow> ps | None \<Rightarrow> []) @ globalPrereqs b,
       targetName = t,
       buildRuleTrace = parentBuildRuleTrace @ [t] \<rparr>"

text \<open>
  The rest of \<open>buildTarget\<close> once the prerequisites are built (lines 358 to 395).
\<close>

definition completeTarget ::
  "Builder \<Rightarrow> string \<Rightarrow> BuildRule \<Rightarrow> BuildContext \<Rightarrow> TargetTypeName \<Rightarrow> jsnum \<Rightarrow> jsnum \<Rightarrow> state
     \<Rightarrow> jsnum outcome \<times> state" where
  "completeTarget b t rule ctx ty targetMtime latestPrereqMtime s =
     (if targetMtime = NegInf \<or> latestPrereqMtime > targetMtime then
        (case getRuleBuildFunction (denoRun b) rule ctx of
           Inl e \<Rightarrow> (Rejected e, s)
         | Inr buildFunction \<Rightarrow>
             (let wrappedBuildFunction =
                    getRuleBuildFunctionTransformer rule (innerBuildFunction rule t ty buildFunction);
                  s1 = s\<lparr>invoked := invoked s @ [t]\<rparr>
              in case wrappedBuildFunction ctx (outside s1) of
                   (Some e, w) \<Rightarrow> (Rejected e, s1\<lparr>outside := w\<rparr>)
                 | (None, w) \<Rightarrow>
                     (case rereadMtime ty w t of
                        Inl e \<Rightarrow> (Rejected e, s1\<lparr>outside := w\<rparr>)
                      | Inr m \<Rightarrow> (Resolved m, s1\<lparr>outside := w\<rparr>))))
      else (Resolved targetMtime, s))"

text \<open>The promise that \<open>build\<close> creates for a target that has no rule (lines 403 to 408).\<close>

definition buildWithoutRule :: "string \<Rightarrow> string list \<Rightarrow> state \<Rightarrow> jsnum outcome \<times> state" where
  "buildWithoutRule t trace s =
     (case mtimeR (outside s) t Raise PosInf of
        Inr mtime \<Rightarrow> (Resolved mtime, s)
      | Inl err \<Rightarrow> (Rejected (BuildError (DoesNotExistAndNoRule t) trace), s))"

text \<open>
  \<open>build\<close> itself runs synchronously: it returns the promise of the table or creates
  one, calling \<open>fetchAllBuildRules\<close> on the way. The promise is named by its target.
  Target names that every JavaScript object inherits as properties (\<open>toString\<close>,
  \<open>constructor\<close>) are not modelled.
\<close>

definition build :: "Builder \<Rightarrow> string \<Rightarrow> string list \<Rightarrow> state \<Rightarrow> state" where
  "build b t trace s =
     (if buildPromises s t \<noteq> None then s
      else (case fetchBuildRuleForTarget b t s of
              (found, s1) \<Rightarrow>
                s1\<lparr>buildPromises := (buildPromises s1)(t \<mapsto> Registered trace found),
                   created := created s1 @ [t]\<rparr>))"

definition firstRejected :: "jsnum outcome list \<Rightarrow> error option" where
  "firstRejected outs =
     (case filter (\<lambda>out. case out of Rejected e \<Rightarrow> True | _ \<Rightarrow> False) outs of
        Rejected e # _ \<Rightarrow> Some e
      | _ \<Rightarrow> None)"

definition mtimeOf :: "jsnum outcome \<Rightarrow> jsnum" where
  "mtimeOf out = (case out of Resolved m \<Rightarrow> m | _ \<Rightarrow> NegInf)"

text \<open>
  \<open>Promise.all\<close> followed by the reduction with \<open>Math.max\<close> (lines 436 to 440).
  \<open>earlier\<close> are the outcomes the promises had when \<open>Promise.all\<close> was called: a
  promise already rejected then rejects the whole before any other can.
\<close>

definition promiseAllMax :: "jsnum outcome list \<Rightarrow> jsnum outcome list \<Rightarrow> jsnum outcome" where
  "promiseAllMax earlier outs =
     (case firstRejected earlier of
        Some e \<Rightarrow> Rejected e
      | None \<Rightarrow>
          (case firstRejected outs of
             Some e \<Rightarrow> Rejected e
           | None \<Rightarrow>
               if Hangs \<in> set outs then Hangs
               else Resolved (foldl (\<lambda>a out. max a (mtimeOf out)) NegInf outs)))"

definition settledAlready :: "state \<Rightarrow> string list \<Rightarrow> jsnum outcome list" where
  "settledAlready s names =
     map (\<lambda>t. case buildPromises s t of Some (Finished out) \<Rightarrow> out | _ \<Rightarrow> Hangs) names"

text \<open>
  Running the promises. JavaScript runs the bodies of the promises interleaved, in an
  order that depends on when the filesystem answers. The model follows one such order,
  by need: the body of a created promise runs when the promise is first awaited. In
  serial mode this is the order of the code. Awaiting a promise whose body is running is
  awaiting oneself (the rules are cyclic): it never settles. In parallel mode such a
  wait can still end in a rejection, when another prerequisite of the target waited for
  is rejected later; the model says \<open>Hangs\<close> for the waits inside the cycle then too.

  The functions below take the way to await a promise as their first argument;
  \<open>await\<close> ties the knot, its number bounding the depth of nested requests.
  \<open>None\<close> means the bound was too small (or a target without a promise was awaited).
\<close>

type_synonym awaiter = "Builder \<Rightarrow> string \<Rightarrow> state \<Rightarrow> (jsnum outcome \<times> state) option"

fun buildSerialWith ::
  "awaiter \<Rightarrow> Builder \<Rightarrow> string list \<Rightarrow> string list \<Rightarrow> jsnum \<Rightarrow> state
     \<Rightarrow> (jsnum outcome \<times> state) option" where
  "buildSerialWith aw b [] trace latest s = Some (Resolved latest, s)"
| "buildSerialWith aw b (t # rest) trace latest s =
     (case aw b t (build b t trace s) of
        None \<Rightarrow> None
      | Some (Resolved mtime, s') \<Rightarrow> buildSerialWith aw b rest trace (max latest mtime) s'
      | Some (Rejected e, s') \<Rightarrow> Some (Rejected e, s')
      | Some (Hangs, s') \<Rightarrow> Some (Hangs, s'))"

fun awaitAllWith ::
  "awaiter \<Rightarrow> Builder \<Rightarrow> string list \<Rightarrow> state \<Rightarrow> (jsnum outcome list \<times> state) option" where
  "awaitAllWith aw b [] s = Some ([], s)"
| "awaitAllWith aw b (t # rest) s =
     (case aw b t s of
        None \<Rightarrow> None
      | Some (out, s') \<Rightarrow>
          (case awaitAllWith aw b rest s' of
             None \<Rightarrow> None
           | Some (outs, s'') \<Rightarrow> Some (out # outs, s'')))"

definition buildAllWith ::
  "awaiter \<Rightarrow> Builder \<Rightarrow> string list \<Rightarrow> string list \<Rightarrow> state
     \<Rightarrow> (jsnum outcome \<times> state) option" where
  "buildAllWith aw b targetNames trace s =
     (case concurrencyMode s of
        Serial \<Rightarrow> buildSerialWith aw b (deduplicate targetNames) trace NegInf s
      | Parallel \<Rightarrow>
          (case awaitAllWith aw b (deduplicate targetNames)
                  (foldl (\<lambda>s' t. build b t trace s') s (deduplicate targetNames)) of
             None \<Rightarrow> None
           | Some (outs, s2) \<Rightarrow>
               Some (promiseAllMax (settledAlready s (deduplicate targetNames)) outs, s2)))"

definition buildTargetWith ::
  "awaiter \<Rightarrow> Builder \<Rightarrow> string \<Rightarrow> BuildRule \<Rightarrow> string list \<Rightarrow> state
     \<Rightarrow> (jsnum outcome \<times> state) option" where
  "buildTargetWith aw b t rule parentBuildRuleTrace s =
     (let ctx = makeContext b t rule parentBuildRuleTrace in
      case getRuleTargetType rule t ctx of
        Inl e \<Rightarrow> Some (Rejected e, s)
      | Inr ty \<Rightarrow>
          (case currentMtime ty (outside s) t of
             Inl e \<Rightarrow> Some (Rejected e, s)
           | Inr targetMtime \<Rightarrow>
               (case buildAllWith aw b (prereqNames ctx) (buildRuleTrace ctx) s of
                  None \<Rightarrow> None
                | Some (Rejected e, s1) \<Rightarrow> Some (Rejected e, s1)
                | Some (Hangs, s1) \<Rightarrow> Some (Hangs, s1)
                | Some (Resolved latestPrereqMtime, s1) \<Rightarrow>
                    Some (completeTarget b t rule ctx ty targetMtime latestPrereqMtime s1))))"

definition settle :: "string \<Rightarrow> (jsnum outcome \<times> state) option \<Rightarrow> (jsnum outcome \<times> state) option" where
  "settle t r =
     (case r of
        None \<Rightarrow> None
      | Some (out, s') \<Rightarrow> Some (out, s'\<lparr>buildPromises := (buildPromises s')(t \<mapsto> Finished out)\<rparr>))"

definition awaitWith :: "awaiter \<Rightarrow> awaiter" where
  "awaitWith aw b t s =
     (case buildPromises s t of
        None \<Rightarrow> None
      | Some InFlight \<Rightarrow> Some (Hangs, s)
      | Some (Finished out) \<Rightarrow> Some (out, s)
      | Some (Registered trace found) \<Rightarrow>
          (let running = s\<lparr>buildPromises := (buildPromises s)(t \<mapsto> InFlight)\<rparr> in
           settle t
             (case found of
                Inl e \<Rightarrow> Some (Rejected e, running)
              | Inr None \<Rightarrow> Some (buildWithoutRule t trace running)
              | Inr (Some rule) \<Rightarrow> buildTargetWith aw b t rule trace running)))"

primrec await :: "nat \<Rightarrow> awaiter" where
  "await 0 = (\<lambda>b t s. None)"
| "await (Suc n) = awaitWith (await n)"

definition buildTarget ::
  "nat \<Rightarrow> Builder \<Rightarrow> string \<Rightarrow> BuildRule \<Rightarrow> string list \<Rightarrow> state
     \<Rightarrow> (jsnum outcome \<times> state) option" where
  "buildTarget n = buildTargetWith (await n)"

definition buildAll ::
  "nat \<Rightarrow> Builder \<Rightarrow> string list \<Rightarrow> string list \<Rightarrow> state
     \<Rightarrow> (jsnum outcome \<times> state) option" where
  "buildAll n = buildAllWith (await n)"

section \<open>The command line (Builder.ts, lines 448 to 621)\<close>

datatype BuildOperationName = Build | DescribeTargets | ListTargets | PrintHelp

record BuildParameters =
  buildOperation :: BuildOperationName
  targetNames :: "string list"
  targetsSpecifiedVia :: string
  verbosity :: nat
  requestedConcurrencyMode :: "ConcurrencyMode option"

definition VERBOSITY_ERRORS :: nat where "VERBOSITY_ERRORS = 50"
definition VERBOSITY_WARNINGS :: nat where "VERBOSITY_WARNINGS = 100"
definition VERBOSITY_INFO :: nat where "VERBOSITY_INFO = 200"

definition isDigit :: "char \<Rightarrow> bool" where
  "isDigit c = (c \<in> set ''0123456789'')"

definition digitValue :: "char \<Rightarrow> nat" where
  "digitValue c = of_char c - 48"

definition toNumber :: "string \<Rightarrow> nat" where
  "toNumber ds = foldl (\<lambda>n c. 10 * n + digitValue c) 0 ds"

definition endsWith :: "string \<Rightarrow> string \<Rightarrow> bool" where
  "endsWith s p = (length p \<le> length s \<and> drop (length s - length p) s = p)"

text \<open>
  The match of \<open>/--verbosity=(\d+)$/\<close>, which is not anchored at the start: the digits
  that end the argument, when there are some and \<open>--verbosity=\<close> stands before them.
\<close>

definition verbosityMatch :: "string \<Rightarrow> string option" where
  "verbosityMatch arg =
     (let digits = rev (takeWhile isDigit (rev arg));
          front = take (length arg - length digits) arg
      in if digits \<noteq> [] \<and> endsWith front ''--verbosity='' then Some digits else None)"

definition slashes :: "string \<Rightarrow> string" where
  "slashes arg = map (\<lambda>c. if c = CHR 0x5C then CHR ''/'' else c) arg"

fun parseArgs :: "string list \<Rightarrow> BuildParameters \<Rightarrow> error + BuildParameters" where
  "parseArgs [] p = Inr p"
| "parseArgs (arg # args) p =
     (if arg = ''--list-targets'' then parseArgs args (p\<lparr>buildOperation := ListTargets\<rparr>)
      else if arg = ''--describe-targets'' then parseArgs args (p\<lparr>buildOperation := DescribeTargets\<rparr>)
      else if arg = ''--help'' then parseArgs args (p\<lparr>buildOperation := PrintHelp\<rparr>)
      else if arg = ''--serial'' then parseArgs args (p\<lparr>requestedConcurrencyMode := Some Serial\<rparr>)
      else if arg = ''--parallel'' then parseArgs args (p\<lparr>requestedConcurrencyMode := Some Parallel\<rparr>)
      else if arg = ''-v'' then parseArgs args (p\<lparr>verbosity := VERBOSITY_INFO\<rparr>)
      else if arg = ''-q'' then parseArgs args (p\<lparr>verbosity := VERBOSITY_ERRORS\<rparr>)
      else (case verbosityMatch arg of
              Some digits \<Rightarrow> parseArgs args (p\<lparr>verbosity := toNumber digits\<rparr>)
            | None \<Rightarrow>
                if startsWith arg ''-'' then Inl (Error ''Error'' (UnrecognizedArgument arg) None)
                else parseArgs args (p\<lparr>targetNames := targetNames p @ [slashes arg]\<rparr>)))"

definition parseCommandLineArgs :: "Builder \<Rightarrow> state \<Rightarrow> string list \<Rightarrow> error + BuildParameters" where
  "parseCommandLineArgs b s args =
     (case parseArgs args
             \<lparr> buildOperation = Build, targetNames = [], targetsSpecifiedVia = ''command-line'',
               verbosity = VERBOSITY_WARNINGS, requestedConcurrencyMode = Some (concurrencyMode s) \<rparr> of
        Inl e \<Rightarrow> Inl e
      | Inr p \<Rightarrow>
          if targetNames p = []
          then Inr (p\<lparr>targetNames := defaultTargetNames b, targetsSpecifiedVia := ''(default targets)''\<rparr>)
          else Inr p)"

definition applyConcurrencyMode :: "BuildParameters \<Rightarrow> state \<Rightarrow> state" where
  "applyConcurrencyMode params s =
     (case requestedConcurrencyMode params of
        None \<Rightarrow> s
      | Some m \<Rightarrow>
          if concurrencyMode s = Serial \<and> m = Parallel then s
          else s\<lparr>concurrencyMode := m\<rparr>)"

definition run :: "nat \<Rightarrow> Builder \<Rightarrow> BuildParameters \<Rightarrow> state \<Rightarrow> (unit outcome \<times> state) option" where
  "run n b params s0 =
     (let s = applyConcurrencyMode params s0 in
      case buildOperation params of
        ListTargets \<Rightarrow>
          (case fetchAllBuildRules b s of
             (Inl e, s') \<Rightarrow> Some (Rejected e, s')
           | (Inr targets, s') \<Rightarrow> Some (Resolved (), s'))
      | DescribeTargets \<Rightarrow>
          (case fetchAllBuildRules b s of
             (Inl e, s') \<Rightarrow> Some (Rejected e, s')
           | (Inr targets, s') \<Rightarrow> Some (Resolved (), s'))
      | Build \<Rightarrow>
          if targetNames params = [] then Some (Resolved (), s)
          else (case buildAll n b (targetNames params) [targetsSpecifiedVia params] s of
                  None \<Rightarrow> None
                | Some (Resolved m, s') \<Rightarrow> Some (Resolved (), s')
                | Some (Rejected e, s') \<Rightarrow> Some (Rejected e, s')
                | Some (Hangs, s') \<Rightarrow> Some (Hangs, s'))
      | PrintHelp \<Rightarrow> Some (Resolved (), s))"

text \<open>
  \<open>join\<close> waits until every promise that \<open>build\<close> created has settled, whatever the
  outcome; it never rejects.
\<close>

definition join :: "nat \<Rightarrow> Builder \<Rightarrow> state \<Rightarrow> (unit outcome \<times> state) option" where
  "join n b s =
     (case awaitAllWith (await n) b (created s) s of
        None \<Rightarrow> None
      | Some (outs, s') \<Rightarrow> Some (if Hangs \<in> set outs then Hangs else Resolved (), s'))"

definition runResultToCommandLineResult ::
  "nat \<Rightarrow> Builder \<Rightarrow> (unit outcome \<times> state) option \<Rightarrow> (nat outcome \<times> state) option" where
  "runResultToCommandLineResult n b res =
     (case res of
        None \<Rightarrow> None
      | Some (Hangs, s) \<Rightarrow> Some (Hangs, s)
      | Some (settled, s) \<Rightarrow>
          (case join n b s of
             None \<Rightarrow> None
           | Some (Resolved u, s') \<Rightarrow>
               Some (Resolved (case settled of Resolved v \<Rightarrow> 0 | _ \<Rightarrow> 1), s')
           | Some (Rejected e, s') \<Rightarrow> Some (Rejected e, s')
           | Some (Hangs, s') \<Rightarrow> Some (Hangs, s')))"

definition processCommandLine ::
  "nat \<Rightarrow> Builder \<Rightarrow> string list \<Rightarrow> state \<Rightarrow> (nat outcome \<times> state) option" where
  "processCommandLine n b args s =
     (case parseCommandLineArgs b s args of
        Inl e \<Rightarrow> Some (Rejected e, s)
      | Inr buildParams \<Rightarrow> runResultToCommandLineResult n b (run n b buildParams s))"

section \<open>The alternate mtime function\<close>

text \<open>
  Modelled from the spec: the optional alternate mtime function of the construction
  options and the fallback to the filesystem oracle. The Builder.ts at hand has no such
  option and calls \<open>mtimeR\<close> directly; only the test of the option is there. The
  alternate function answers a number, undefined (\<open>None\<close>) or fails.
\<close>

type_synonym AlternateMtimeFunction = "world \<Rightarrow> string \<Rightarrow> error + jsnum option"

definition effectiveMtime ::
  "AlternateMtimeFunction option \<Rightarrow> world \<Rightarrow> string \<Rightarrow> onNotFound \<Rightarrow> error + jsnum" where
  "effectiveMtime mtimeFunction w path onNF =
     (case mtimeFunction of
        None \<Rightarrow> mtimeR w path onNF PosInf
      | Some alternate \<Rightarrow>
          (case alternate w path of
             Inl e \<Rightarrow> Inl e
           | Inr (Some m) \<Rightarrow> Inr m
           | Inr None \<Rightarrow> mtimeR w path onNF PosInf))"

text \<open>
  The alternate function of Builder.test.ts: the number in a sidecar file, undefined when
  the sidecar is missing. Reading a text file and reading a number off its text are taken
  as given.
\<close>

definition makeSidecarMtimeFunction ::
  "(world \<Rightarrow> string \<Rightarrow> error + string) \<Rightarrow> (string \<Rightarrow> jsnum) \<Rightarrow> (string \<Rightarrow> string)
     \<Rightarrow> AlternateMtimeFunction" where
  "makeSidecarMtimeFunction readTextFile number sidecarPathFunction w path =
     (case readTextFile w (sidecarPathFunction path) of
        Inr text \<Rightarrow> Inr (Some (number text))
      | Inl err \<Rightarrow> if errName err = ''NotFound'' then Inr None else Inl err)"

section \<open>A small project\<close>

text \<open>
  Three files and one rule, as in the first scenarios of the specification: \<open>c.txt\<close>
  is made from \<open>a.txt\<close> and \<open>b.txt\<close>.
\<close>

definition plainRule :: BuildRule where
  "plainRule =
     \<lparr> description = None, prereqs = None, invoke = None, cmd = None,
       buildFunctionTransformer = None, keepOnFailure = None, targetType = None,
       isDirectory = None \<rparr>"

definition threeFiles :: "int option \<Rightarrow> world" where
  "threeFiles c =
     \<lparr> files = (\<lambda>p. if p = ''a.txt'' then RegularFile (Some 100)
                     else if p = ''b.txt'' then RegularFile (Some 200)
                     else if p = ''c.txt'' then RegularFile c
                     else NoStat notFound),
       removeFailure = (\<lambda>p. None),
       clock = 1000 \<rparr>"

definition writeFile :: "string \<Rightarrow> BuildFunction" where
  "writeFile path ctx w = (None, w\<lparr>files := (files w)(path := RegularFile (Some (clock w)))\<rparr>)"

definition failing :: "error \<Rightarrow> BuildFunction" where
  "failing e ctx w = (Some e, w)"

definition project :: "BuildRule \<Rightarrow> Builder" where
  "project rule =
     \<lparr> buildRules = [(''c.txt'', rule)],
       globalPrereqs = [], defaultTargetNames = [], fetchGeneratedTargets = Inr [],
       denoRun = (\<lambda>command w. (Exited True 0, w)) \<rparr>"

definition fromAB :: BuildRule where
  "fromAB = plainRule\<lparr>prereqs := Some [''a.txt'', ''b.txt'']\<rparr>"

definition boom :: error where
  "boom = Error ''Error'' (Other ''boom'') None"

definition permissionDenied :: error where
  "permissionDenied = Error ''PermissionDenied'' (Other ''c.txt'') None"

definition locked :: "world \<Rightarrow> world" where
  "locked w = w\<lparr>removeFailure := (\<lambda>p. Some permissionDenied)\<rparr>"

definition noSidecar :: "world \<Rightarrow> string \<Rightarrow> error + string" where
  "noSidecar w path = Inl notFound"

text \<open>
  The diamond of the specification's last scenario: \<open>d\<close> needs \<open>e1\<close> and \<open>e2\<close>,
  and both need \<open>shared\<close>. Nothing is on disk; every rule writes its target.
\<close>

definition emptyDisk :: world where
  "emptyDisk = \<lparr> files = (\<lambda>p. NoStat notFound), removeFailure = (\<lambda>p. None), clock = 1000 \<rparr>"

definition writes :: "string \<Rightarrow> string list \<Rightarrow> BuildRule" where
  "writes t ps = plainRule\<lparr>prereqs := Some ps, invoke := Some (writeFile t)\<rparr>"

definition projectOf :: "rules \<Rightarrow> Builder" where
  "projectOf rs =
     \<lparr> buildRules = rs,
       globalPrereqs = [], defaultTargetNames = [], fetchGeneratedTargets = Inr [],
       denoRun = (\<lambda>command w. (Exited True 0, w)) \<rparr>"

definition diamond :: Builder where
  "diamond =
     projectOf [(''d'', writes ''d'' [''e1'', ''e2'']),
                (''e1'', writes ''e1'' [''shared'']),
                (''e2'', writes ''e2'' [''shared'']),
                (''shared'', writes ''shared'' [])]"

text \<open>A chain: \<open>c.txt\<close> needs \<open>gen.txt\<close>, whose build function fails.\<close>

definition chain :: Builder where
  "chain =
     projectOf [(''c.txt'', plainRule\<lparr>prereqs := Some [''gen.txt'']\<rparr>),
                (''gen.txt'', plainRule\<lparr>invoke := Some (failing boom)\<rparr>)]"

definition phonyRule :: BuildRule where
  "phonyRule = plainRule\<lparr>targetType := Some Phony\<rparr>"

section \<open>Notions used in the statements\<close>


text \<open>The test of line 358: the target is built again.\<close>

definition stale :: "jsnum \<Rightarrow> jsnum \<Rightarrow> bool" where
  "stale targetMtime latestPrereqMtime = (targetMtime = NegInf \<or> latestPrereqMtime > targetMtime)"



text \<open>
  \<open>later s s'\<close>: the table of \<open>s'\<close> continues that of \<open>s\<close>. A promise that was
  done is done with the same outcome, one whose body was running is still running,
  no promise has gone, and the configuration is the same.
\<close>

definition later :: "state \<Rightarrow> state \<Rightarrow> bool" where
  "later s s' =
     ((\<forall>t. buildPromises s t = Some InFlight \<longrightarrow> buildPromises s' t = Some InFlight)
      \<and> (\<forall>t out. buildPromises s t = Some (Finished out) \<longrightarrow> buildPromises s' t = Some (Finished out))
      \<and> (\<forall>t. buildPromises s t \<noteq> None \<longrightarrow> buildPromises s' t \<noteq> None)
      \<and> concurrencyMode s' = concurrencyMode s
      \<and> allTargetsPromise s' = allTargetsPromise s)"

definition started :: "promise option \<Rightarrow> bool" where
  "started p = (case p of Some InFlight \<Rightarrow> True | Some (Finished out) \<Rightarrow> True | _ \<Rightarrow> False)"

text \<open>
  \<open>consistent s\<close>: a promise was created once for each target of the table and for no
  other, and no target's wrapped build function was called twice, nor before the body of
  the target's promise began to run.
\<close>

definition consistent :: "state \<Rightarrow> bool" where
  "consistent s =
     (distinct (created s) \<and> set (created s) = dom (buildPromises s)
      \<and> distinct (invoked s) \<and> (\<forall>t \<in> set (invoked s). started (buildPromises s t)))"

definition onlyNew :: "state \<Rightarrow> state \<Rightarrow> bool" where
  "onlyNew s s' = (\<forall>t \<in> set (invoked s'). t \<in> set (invoked s) \<or> \<not> started (buildPromises s t))"

text \<open>What awaiting a target's promise answered is what the table holds for the target.\<close>

definition answered :: "state \<Rightarrow> string \<Rightarrow> jsnum outcome \<Rightarrow> bool" where
  "answered s' t out =
     (buildPromises s' t = Some (Finished out) \<or> (buildPromises s' t = Some InFlight \<and> out = Hangs))"

definition resolvedAt :: "state \<Rightarrow> string \<Rightarrow> jsnum \<Rightarrow> bool" where
  "resolvedAt s' t m = (buildPromises s' t = Some (Finished (Resolved m)))"

text \<open>
  Two properties of a way to await promises: it carries the table on and answers what the
  table then holds; it keeps a consistent state consistent, calling wrapped build
  functions only of targets whose promise had not begun to run.
\<close>

definition carries :: "awaiter \<Rightarrow> bool" where
  "carries aw = (\<forall>b t s out s'. aw b t s = Some (out, s') \<longrightarrow> later s s' \<and> answered s' t out)"

definition keeps :: "awaiter \<Rightarrow> bool" where
  "keeps aw =
     (\<forall>b t s out s'. aw b t s = Some (out, s') \<longrightarrow> consistent s \<longrightarrow> consistent s' \<and> onlyNew s s')"

text \<open>What a request for several targets reports, read off the table afterwards.\<close>

definition reported :: "state \<Rightarrow> string list \<Rightarrow> jsnum \<Rightarrow> jsnum outcome \<Rightarrow> bool" where
  "reported s' names seed out =
     (case out of
        Resolved m \<Rightarrow> (\<exists>ms. list_all2 (resolvedAt s') names ms \<and> m = foldl max seed ms)
      | Rejected e \<Rightarrow> (\<exists>t \<in> set names. buildPromises s' t = Some (Finished (Rejected e)))
      | Hangs \<Rightarrow> (\<exists>t \<in> set names. answered s' t Hangs))"









section \<open>Basic facts\<close>

lemma jsnum_le_simps [simp]:
  "NegInf \<le> b" "a \<le> PosInf"
  "(Fin x \<le> Fin y) = (x \<le> y)"
  "(Fin x \<le> NegInf) = False" "(PosInf \<le> NegInf) = False" "(PosInf \<le> Fin y) = False"
  by (cases a; cases b; simp add: less_eq_jsnum_def)+

lemma jsnum_less_simps [simp]:
  "(a < NegInf) = False" "(PosInf < b) = False"
  "(Fin x < Fin y) = (x < y)"
  "NegInf < Fin y" "NegInf < PosInf" "Fin x < PosInf"
  "(NegInf < b) = (b \<noteq> NegInf)" "(a < PosInf) = (a \<noteq> PosInf)"
  by (cases a; cases b; auto simp add: less_jsnum_def less_eq_jsnum_def)+

lemma jsnum_max_simps [simp]:
  "max NegInf b = b" "max a NegInf = a" "max PosInf b = PosInf" "max a PosInf = PosInf"
  "max (Fin x) (Fin y) = Fin (max x y)"
  by (cases a; cases b; auto simp add: max_def)+

lemmas engine_defs =
  buildAll_def buildTarget_def buildAllWith_def deduplicate_def newBuilder_def build_def
  fetchBuildRuleForTarget_def fetchAllBuildRules_def assignAll_def awaitWith_def settle_def
  buildTargetWith_def makeContext_def getRuleTargetType_def currentMtime_def mtimeR_def
  settledAlready_def buildWithoutRule_def promiseAllMax_def firstRejected_def mtimeOf_def
  completeTarget_def getRuleBuildFunction_def getRuleBuildFunctionTransformer_def
  innerBuildFunction_def verifyAndPostProcess_def verifyTarget_def postProcessTarget_def
  rereadMtime_def ownMtime_def notFound_def BuildError_def getFailureFileAction_def
  makeRemoved_def denoRemove_def touchDir_def

lemmas project_defs =
  project_def fromAB_def plainRule_def threeFiles_def writeFile_def failing_def boom_def
  permissionDenied_def locked_def noSidecar_def emptyDisk_def writes_def projectOf_def
  diamond_def chain_def phonyRule_def


lemma buildTargetWith_resolved:
  assumes "getRuleTargetType rule t (makeContext b t rule tr) = Inr ty"
    and "currentMtime ty (outside s) t = Inr cur"
    and "buildAllWith aw b (prereqNames (makeContext b t rule tr))
           (buildRuleTrace (makeContext b t rule tr)) s = Some (Resolved latest, s1)"
  shows "buildTargetWith aw b t rule tr s
           = Some (completeTarget b t rule (makeContext b t rule tr) ty cur latest s1)"
  using assms by (simp add: buildTargetWith_def Let_def)


lemma completeTarget_fresh:
  assumes "\<not> stale cur latest"
  shows "completeTarget b t rule ctx ty cur latest s = (Resolved cur, s)"
  using assms by (auto simp: completeTarget_def stale_def)




subsection \<open>The table is carried on\<close>

lemma later_refl [simp]: "later s s"
  by (simp add: later_def)

lemma later_trans: "later s s' \<Longrightarrow> later s' s'' \<Longrightarrow> later s s''"
  by (simp add: later_def)

lemma fetchBuildRuleForTarget_state:
  "fetchBuildRuleForTarget b t s = (found, s1) \<Longrightarrow>
     \<exists>k. s1 = s\<lparr>hookCalls := k\<rparr>"
  by (auto simp: fetchBuildRuleForTarget_def fetchAllBuildRules_def Let_def
      split: option.splits sum.splits prod.splits intro: exI [of _ "hookCalls s"])

lemma build_cases:
  "(buildPromises s t \<noteq> None \<and> build b t tr s = s)
   \<or> (buildPromises s t = None
        \<and> (\<exists>found k. build b t tr s
              = s\<lparr>hookCalls := k, buildPromises := (buildPromises s)(t \<mapsto> Registered tr found),
                   created := created s @ [t]\<rparr>))"
proof (cases "buildPromises s t")
  case None
  obtain found s1 where f: "fetchBuildRuleForTarget b t s = (found, s1)"
    by (cases "fetchBuildRuleForTarget b t s")
  then obtain k where "s1 = s\<lparr>hookCalls := k\<rparr>"
    using fetchBuildRuleForTarget_state by blast
  with None f show ?thesis by (auto simp: build_def)
next
  case (Some p)
  then show ?thesis by (simp add: build_def)
qed

lemma later_build: "later s (build b t tr s)"
  using build_cases [of s t b tr] by (auto simp: later_def)


lemma later_foldl_build: "later s (foldl (\<lambda>s' t. build b t tr s') s ts)"
proof (induction ts arbitrary: s)
  case Nil
  show ?case by simp
next
  case (Cons t ts)
  have "later s (build b t tr s)" by (rule later_build)
  moreover have "later (build b t tr s) (foldl (\<lambda>s' t. build b t tr s') (build b t tr s) ts)"
    by (rule Cons.IH)
  ultimately show ?case by (auto intro: later_trans)
qed

lemma answered_later: "answered s t out \<Longrightarrow> later s s' \<Longrightarrow> answered s' t out"
  by (auto simp: answered_def later_def)

lemma awaitAllWith_carries:
  assumes "carries aw" and "awaitAllWith aw b ts s = Some (outs, s')"
  shows "later s s' \<and> list_all2 (answered s') ts outs"
  using assms(2)
proof (induction ts arbitrary: s outs)
  case Nil
  then show ?case by simp
next
  case (Cons t ts)
  from Cons.prems obtain out s1 outs' where
    1: "aw b t s = Some (out, s1)" and 2: "awaitAllWith aw b ts s1 = Some (outs', s')"
    and 3: "outs = out # outs'"
    by (auto split: option.splits)
  from assms(1) 1 have a: "later s s1" "answered s1 t out"
    by (auto simp: carries_def)
  from Cons.IH [OF 2] have b: "later s1 s'" "list_all2 (answered s') ts outs'"
    by auto
  from a b 3 show ?case
    by (auto intro: later_trans answered_later)
qed


lemma resolvedAt_later: "resolvedAt s t m \<Longrightarrow> later s s' \<Longrightarrow> resolvedAt s' t m"
  by (auto simp: resolvedAt_def later_def)

lemma list_all2_resolvedAt_later:
  "list_all2 (resolvedAt s) ts ms \<Longrightarrow> later s s' \<Longrightarrow> list_all2 (resolvedAt s') ts ms"
  by (erule list_all2_mono) (rule resolvedAt_later)

lemma reported_later:
  assumes "reported s ts seed out" and "later s s'"
  shows "reported s' ts seed out"
proof (cases out)
  case (Resolved m)
  with assms(1) obtain ms where "list_all2 (resolvedAt s) ts ms" "m = foldl max seed ms"
    by (auto simp: reported_def)
  with assms(2) have "list_all2 (resolvedAt s') ts ms \<and> m = foldl max seed ms"
    by (simp add: list_all2_resolvedAt_later)
  with Resolved show ?thesis unfolding reported_def by (simp only: outcome.case) blast
next
  case (Rejected e)
  with assms show ?thesis by (auto simp: reported_def later_def)
next
  case Hangs
  with assms(1) obtain t where "t \<in> set ts" "answered s t Hangs"
    by (auto simp: reported_def)
  with assms(2) have "t \<in> set ts" "answered s' t Hangs"
    by (auto intro: answered_later)
  with Hangs show ?thesis by (auto simp: reported_def)
qed

lemma buildSerialWith_carries:
  assumes "carries aw" and "buildSerialWith aw b ts tr latest s = Some (out, s')"
  shows "later s s' \<and> reported s' ts latest out"
  using assms(2)
proof (induction ts arbitrary: s latest)
  case Nil
  then show ?case by (auto simp: reported_def)
next
  case (Cons t ts)
  let ?s0 = "build b t tr s"
  from Cons.prems obtain o1 s1 where 1: "aw b t ?s0 = Some (o1, s1)"
    by (auto split: option.splits)
  from assms(1) 1 have a: "later ?s0 s1" "answered s1 t o1"
    by (auto simp: carries_def)
  have l: "later s s1"
    using later_build a(1) by (rule later_trans)
  show ?case
  proof (cases o1)
    case (Resolved m1)
    with Cons.prems 1 have 2: "buildSerialWith aw b ts tr (max latest m1) s1 = Some (out, s')"
      by simp
    from Cons.IH [OF 2] have b: "later s1 s'" "reported s' ts (max latest m1) out"
      by auto
    from a(2) Resolved have "resolvedAt s1 t m1"
      by (simp add: answered_def resolvedAt_def)
    then have r: "resolvedAt s' t m1"
      using b(1) by (rule resolvedAt_later)
    have "reported s' (t # ts) latest out"
    proof (cases out)
      case (Resolved m)
      with b(2) obtain ms where "list_all2 (resolvedAt s') ts ms" "m = foldl max (max latest m1) ms"
        by (auto simp: reported_def)
      with r have "list_all2 (resolvedAt s') (t # ts) (m1 # ms) \<and> m = foldl max latest (m1 # ms)"
        by simp
      with Resolved show ?thesis unfolding reported_def by (simp only: outcome.case) blast
    next
      case (Rejected e)
      with b(2) show ?thesis by (auto simp: reported_def)
    next
      case Hangs
      with b(2) show ?thesis by (auto simp: reported_def)
    qed
    with l b(1) show ?thesis by (auto intro: later_trans)
  next
    case (Rejected e)
    with Cons.prems 1 have "out = Rejected e" "s' = s1" by simp_all
    with a(2) Rejected l show ?thesis by (auto simp: reported_def answered_def)
  next
    case Hangs
    with Cons.prems 1 have "out = Hangs" "s' = s1" by simp_all
    with a(2) Hangs l show ?thesis by (auto simp: reported_def)
  qed
qed

lemma firstRejected_Some: "firstRejected outs = Some e \<Longrightarrow> Rejected e \<in> set outs"
proof -
  assume a: "firstRejected outs = Some e"
  let ?f = "filter (\<lambda>out. case out of Rejected e \<Rightarrow> True | _ \<Rightarrow> False) outs"
  from a obtain rest where "?f = Rejected e # rest"
    by (auto simp: firstRejected_def split: list.splits outcome.splits)
  then have "Rejected e \<in> set ?f" by simp
  then show ?thesis by simp
qed

lemma firstRejected_None:
  assumes "firstRejected outs = None"
  shows "Rejected e \<notin> set outs"
proof -
  let ?P = "\<lambda>out. case out of Rejected e \<Rightarrow> True | _ \<Rightarrow> False"
  have "filter ?P outs = []"
  proof (cases "filter ?P outs")
    case Nil
    then show ?thesis .
  next
    case (Cons x rest)
    then have "x \<in> set (filter ?P outs)" by simp
    then have "?P x" by simp
    then obtain e' where "x = Rejected e'" by (cases x) simp_all
    with assms Cons show ?thesis by (simp add: firstRejected_def)
  qed
  then have "\<forall>x \<in> set outs. \<not> ?P x" by (simp add: filter_empty_conv)
  then show ?thesis by force
qed

lemma foldl_max_mtimeOf:
  "foldl (\<lambda>a out. max a (mtimeOf out)) z outs = foldl max z (map mtimeOf outs)"
  by (induction outs arbitrary: z) simp_all

lemma all_resolved:
  assumes "list_all2 (answered s') ts outs" and "\<forall>e. Rejected e \<notin> set outs" and "Hangs \<notin> set outs"
  shows "list_all2 (resolvedAt s') ts (map mtimeOf outs)"
  using assms
proof (induction ts outs rule: list_all2_induct)
  case Nil
  show ?case by simp
next
  case (Cons t ts out outs)
  from Cons.prems obtain m where "out = Resolved m" by (cases out) auto
  with Cons show ?case by (auto simp: answered_def resolvedAt_def mtimeOf_def)
qed

lemma settledAlready_rejected:
  assumes "firstRejected (settledAlready s ts) = Some e"
  shows "\<exists>t \<in> set ts. buildPromises s t = Some (Finished (Rejected e))"
proof -
  from assms have "Rejected e \<in> set (settledAlready s ts)" by (rule firstRejected_Some)
  then obtain t where "t \<in> set ts"
    and "(case buildPromises s t of Some (Finished out) \<Rightarrow> out | _ \<Rightarrow> Hangs) = Rejected e"
    by (auto simp: settledAlready_def)
  then show ?thesis by (auto split: option.splits promise.splits)
qed

lemma list_all2_in_set:
  assumes "list_all2 P ts outs" and "out \<in> set outs"
  shows "\<exists>t \<in> set ts. P t out"
  using assms by (induction ts outs rule: list_all2_induct) auto

lemma promiseAllMax_reported:
  assumes "later s s'" and "list_all2 (answered s') ts outs"
  shows "reported s' ts NegInf (promiseAllMax (settledAlready s ts) outs)"
proof (cases "firstRejected (settledAlready s ts)")
  case (Some e)
  then obtain t where "t \<in> set ts" "buildPromises s t = Some (Finished (Rejected e))"
    using settledAlready_rejected by blast
  with assms(1) have "t \<in> set ts" "buildPromises s' t = Some (Finished (Rejected e))"
    by (auto simp: later_def)
  with Some show ?thesis by (auto simp: promiseAllMax_def reported_def)
next
  case None
  show ?thesis
  proof (cases "firstRejected outs")
    case (Some e)
    then have "Rejected e \<in> set outs" by (rule firstRejected_Some)
    with assms(2) obtain t where "t \<in> set ts" "answered s' t (Rejected e)"
      using list_all2_in_set by force
    with None Some show ?thesis by (auto simp: promiseAllMax_def reported_def answered_def)
  next
    case n: None
    show ?thesis
    proof (cases "Hangs \<in> set outs")
      case True
      with assms(2) obtain t where "t \<in> set ts" "answered s' t Hangs"
        using list_all2_in_set by force
      with None n True show ?thesis by (auto simp: promiseAllMax_def reported_def)
    next
      case False
      have "list_all2 (resolvedAt s') ts (map mtimeOf outs)"
        using assms(2) firstRejected_None [OF n] False by (intro all_resolved) auto
      with None n False show ?thesis
        by (auto simp: promiseAllMax_def reported_def foldl_max_mtimeOf)
    qed
  qed
qed

lemma buildAllWith_carries:
  assumes "carries aw" and "buildAllWith aw b names tr s = Some (out, s')"
  shows "later s s' \<and> reported s' (deduplicate names) NegInf out"
proof (cases "concurrencyMode s")
  case Serial
  with assms(2) have "buildSerialWith aw b (deduplicate names) tr NegInf s = Some (out, s')"
    by (simp add: buildAllWith_def)
  with assms(1) show ?thesis by (rule buildSerialWith_carries)
next
  case Parallel
  let ?ts = "deduplicate names"
  let ?s0 = "foldl (\<lambda>s' t. build b t tr s') s ?ts"
  from Parallel assms(2) obtain outs where
    1: "awaitAllWith aw b ?ts ?s0 = Some (outs, s')"
    and 2: "out = promiseAllMax (settledAlready s ?ts) outs"
    by (auto simp: buildAllWith_def split: option.splits)
  from awaitAllWith_carries [OF assms(1) 1]
  have a: "later ?s0 s'" "list_all2 (answered s') ?ts outs" by auto
  have l: "later s s'"
    using later_foldl_build a(1) by (rule later_trans)
  with a(2) 2 show ?thesis by (simp add: promiseAllMax_reported)
qed

lemma completeTarget_table:
  assumes "completeTarget b t rule ctx ty cur latest s = (out, s')"
  shows "buildPromises s' = buildPromises s \<and> created s' = created s
     \<and> concurrencyMode s' = concurrencyMode s \<and> allTargetsPromise s' = allTargetsPromise s
     \<and> hookCalls s' = hookCalls s
     \<and> (invoked s' = invoked s \<or> invoked s' = invoked s @ [t])"
  using assms
  by (auto simp: completeTarget_def Let_def split: if_splits sum.splits prod.splits option.splits)

lemma buildTargetWith_later:
  assumes "carries aw" and "buildTargetWith aw b t rule tr s = Some (out, s')"
  shows "later s s'"
proof -
  let ?ctx = "makeContext b t rule tr"
  show ?thesis
  proof (cases "getRuleTargetType rule t ?ctx")
    case (Inl e)
    with assms(2) show ?thesis by (simp add: buildTargetWith_def Let_def)
  next
    case (Inr ty)
    show ?thesis
    proof (cases "currentMtime ty (outside s) t")
      case (Inl e)
      with Inr assms(2) show ?thesis by (simp add: buildTargetWith_def Let_def)
    next
      case cur: (Inr cur)
      from Inr cur assms(2) obtain o1 s1 where
        1: "buildAllWith aw b (prereqNames ?ctx) (buildRuleTrace ?ctx) s = Some (o1, s1)"
        by (auto simp: buildTargetWith_def Let_def split: option.splits)
      from buildAllWith_carries [OF assms(1) 1] have l: "later s s1" by simp
      show ?thesis
      proof (cases o1)
        case (Resolved latest)
        with Inr cur 1 assms(2)
        have "completeTarget b t rule ?ctx ty cur latest s1 = (out, s')"
          by (simp add: buildTargetWith_def Let_def)
        from completeTarget_table [OF this] l show ?thesis by (simp add: later_def)
      next
        case (Rejected e)
        with Inr cur 1 assms(2) l show ?thesis by (simp add: buildTargetWith_def Let_def)
      next
        case Hangs
        with Inr cur 1 assms(2) l show ?thesis by (simp add: buildTargetWith_def Let_def)
      qed
    qed
  qed
qed

lemma later_settle:
  assumes "buildPromises s t = Some (Registered tr found)"
    and "later (s\<lparr>buildPromises := (buildPromises s)(t \<mapsto> InFlight)\<rparr>) s2"
  shows "later s (s2\<lparr>buildPromises := (buildPromises s2)(t \<mapsto> Finished out)\<rparr>)"
  using assms unfolding later_def
  by (auto split: if_splits)

lemma awaitWith_carries:
  assumes "carries aw"
  shows "carries (awaitWith aw)"
  unfolding carries_def
proof (intro allI impI)
  fix b t s out s'
  assume r: "awaitWith aw b t s = Some (out, s')"
  show "later s s' \<and> answered s' t out"
  proof (cases "buildPromises s t")
    case None
    with r show ?thesis by (simp add: awaitWith_def)
  next
    case (Some p)
    show ?thesis
    proof (cases p)
      case InFlight
      with Some r show ?thesis by (auto simp: awaitWith_def answered_def)
    next
      case (Finished x)
      with Some r show ?thesis by (auto simp: awaitWith_def answered_def)
    next
      case (Registered tr found)
      let ?running = "s\<lparr>buildPromises := (buildPromises s)(t \<mapsto> InFlight)\<rparr>"
      let ?body = "case found of
                Inl e \<Rightarrow> Some (Rejected e, ?running)
              | Inr None \<Rightarrow> Some (buildWithoutRule t tr ?running)
              | Inr (Some rule) \<Rightarrow> buildTargetWith aw b t rule tr ?running"
      from Some Registered r have "settle t ?body = Some (out, s')"
        by (simp add: awaitWith_def Let_def)
      then obtain s2 where body: "?body = Some (out, s2)"
        and s': "s' = s2\<lparr>buildPromises := (buildPromises s2)(t \<mapsto> Finished out)\<rparr>"
        by (auto simp: settle_def split: option.splits)
      have "later ?running s2"
      proof (cases found)
        case (Inl e)
        with body show ?thesis by auto
      next
        case (Inr ro)
        show ?thesis
        proof (cases ro)
          case None
          with Inr body show ?thesis
            by (auto simp: buildWithoutRule_def split: sum.splits)
        next
          case (Some rule)
          with Inr body have "buildTargetWith aw b t rule tr ?running = Some (out, s2)" by simp
          with assms show ?thesis by (rule buildTargetWith_later)
        qed
      qed
      with Some Registered have "later s s'"
        unfolding s' by (intro later_settle) auto
      then show ?thesis by (simp add: s' answered_def)
    qed
  qed
qed

lemma await_carries: "carries (await n)"
proof (induction n)
  case 0
  show ?case by (simp add: carries_def)
next
  case (Suc n)
  then show ?case by (simp add: awaitWith_carries)
qed

subsection \<open>Consistency is kept\<close>

lemma onlyNew_refl [simp]: "onlyNew s s"
  by (simp add: onlyNew_def)

lemma started_later: "started (buildPromises s t) \<Longrightarrow> later s s' \<Longrightarrow> started (buildPromises s' t)"
  by (auto simp: started_def later_def split: option.splits promise.splits)

lemma onlyNew_trans:
  assumes "onlyNew s s'" and "later s s'" and "onlyNew s' s''"
  shows "onlyNew s s''"
  unfolding onlyNew_def
proof
  fix t assume "t \<in> set (invoked s'')"
  with assms(3) have "t \<in> set (invoked s') \<or> \<not> started (buildPromises s' t)"
    by (simp add: onlyNew_def)
  then show "t \<in> set (invoked s) \<or> \<not> started (buildPromises s t)"
  proof
    assume "t \<in> set (invoked s')"
    with assms(1) show ?thesis by (simp add: onlyNew_def)
  next
    assume "\<not> started (buildPromises s' t)"
    with assms(2) show ?thesis using started_later by blast
  qed
qed

lemma consistent_build:
  assumes "consistent s"
  shows "consistent (build b t tr s) \<and> invoked (build b t tr s) = invoked s"
  using build_cases [of s t b tr]
proof
  assume "buildPromises s t \<noteq> None \<and> build b t tr s = s"
  with assms show ?thesis by simp
next
  assume "buildPromises s t = None
        \<and> (\<exists>found k. build b t tr s
              = s\<lparr>hookCalls := k, buildPromises := (buildPromises s)(t \<mapsto> Registered tr found),
                   created := created s @ [t]\<rparr>)"
  then obtain found k where n: "buildPromises s t = None"
    and e: "build b t tr s = s\<lparr>hookCalls := k, buildPromises := (buildPromises s)(t \<mapsto> Registered tr found),
                   created := created s @ [t]\<rparr>"
    by blast
  from assms n have "t \<notin> set (created s)" "t \<notin> set (invoked s)"
    by (auto simp: consistent_def started_def)
  with assms show ?thesis
    unfolding e by (auto simp: consistent_def started_def)
qed

lemma keeps_build:
  assumes "consistent s"
  shows "consistent (build b t tr s) \<and> onlyNew s (build b t tr s)"
  using consistent_build [OF assms, of b t tr] by (simp add: onlyNew_def)

lemma keeps_foldl_build:
  assumes "consistent s"
  shows "consistent (foldl (\<lambda>s' t. build b t tr s') s ts)
     \<and> onlyNew s (foldl (\<lambda>s' t. build b t tr s') s ts)"
  using assms
proof (induction ts arbitrary: s)
  case Nil
  then show ?case by simp
next
  case (Cons t ts)
  from keeps_build [OF Cons.prems, of b t tr]
  have a: "consistent (build b t tr s)" "onlyNew s (build b t tr s)" by auto
  from Cons.IH [OF a(1)] a(2) later_build [of s b t tr]
  show ?case by (auto intro: onlyNew_trans)
qed

lemma awaitAllWith_keeps:
  assumes "carries aw" and "keeps aw"
    and "awaitAllWith aw b ts s = Some (outs, s')" and "consistent s"
  shows "consistent s' \<and> onlyNew s s'"
  using assms(3,4)
proof (induction ts arbitrary: s outs)
  case Nil
  then show ?case by simp
next
  case (Cons t ts)
  from Cons.prems obtain out s1 outs' where
    1: "aw b t s = Some (out, s1)" and 2: "awaitAllWith aw b ts s1 = Some (outs', s')"
    by (auto split: option.splits)
  from assms(2) 1 Cons.prems(2) have a: "consistent s1" "onlyNew s s1"
    by (auto simp: keeps_def)
  from assms(1) 1 have l: "later s s1" by (auto simp: carries_def)
  from Cons.IH [OF 2 a(1)] a(2) l show ?case
    by (auto intro: onlyNew_trans)
qed

lemma buildSerialWith_keeps:
  assumes "carries aw" and "keeps aw"
    and "buildSerialWith aw b ts tr latest s = Some (out, s')" and "consistent s"
  shows "consistent s' \<and> onlyNew s s'"
  using assms(3,4)
proof (induction ts arbitrary: s latest)
  case Nil
  then show ?case by simp
next
  case (Cons t ts)
  let ?s0 = "build b t tr s"
  from Cons.prems obtain o1 s1 where 1: "aw b t ?s0 = Some (o1, s1)"
    by (auto split: option.splits)
  from keeps_build [OF Cons.prems(2), of b t tr]
  have k0: "consistent ?s0" "onlyNew s ?s0" by auto
  from assms(2) 1 k0(1) have a: "consistent s1" "onlyNew ?s0 s1"
    by (auto simp: keeps_def)
  from assms(1) 1 have l0: "later ?s0 s1" by (auto simp: carries_def)
  have l: "later s s1" using later_build l0 by (rule later_trans)
  have n: "onlyNew s s1" using k0(2) later_build a(2) by (rule onlyNew_trans)
  show ?case
  proof (cases o1)
    case (Resolved m1)
    with Cons.prems 1 have 2: "buildSerialWith aw b ts tr (max latest m1) s1 = Some (out, s')"
      by simp
    from Cons.IH [OF 2 a(1)] n l show ?thesis by (auto intro: onlyNew_trans)
  next
    case (Rejected e)
    with Cons.prems 1 have "s' = s1" by simp
    with a(1) n show ?thesis by simp
  next
    case Hangs
    with Cons.prems 1 have "s' = s1" by simp
    with a(1) n show ?thesis by simp
  qed
qed

lemma buildAllWith_keeps:
  assumes "carries aw" and "keeps aw"
    and "buildAllWith aw b names tr s = Some (out, s')" and "consistent s"
  shows "consistent s' \<and> onlyNew s s'"
proof (cases "concurrencyMode s")
  case Serial
  with assms(3) have "buildSerialWith aw b (deduplicate names) tr NegInf s = Some (out, s')"
    by (simp add: buildAllWith_def)
  with assms(1,2) show ?thesis using assms(4) by (rule buildSerialWith_keeps)
next
  case Parallel
  let ?ts = "deduplicate names"
  let ?s0 = "foldl (\<lambda>s' t. build b t tr s') s ?ts"
  from Parallel assms(3) obtain outs where
    1: "awaitAllWith aw b ?ts ?s0 = Some (outs, s')"
    by (auto simp: buildAllWith_def split: option.splits)
  from keeps_foldl_build [OF assms(4), of b tr ?ts]
  have k0: "consistent ?s0" "onlyNew s ?s0" by auto
  from awaitAllWith_keeps [OF assms(1,2) 1 k0(1)] k0(2) later_foldl_build [of s b tr ?ts]
  show ?thesis by (auto intro: onlyNew_trans)
qed

lemma completeTarget_keeps:
  assumes "completeTarget b t rule ctx ty cur latest s = (out, s')"
    and "consistent s" and "started (buildPromises s t)" and "t \<notin> set (invoked s)"
  shows "consistent s' \<and> set (invoked s') \<subseteq> insert t (set (invoked s))"
  using completeTarget_table [OF assms(1)] assms(2-4)
  by (auto simp: consistent_def)

lemma buildTargetWith_keeps:
  assumes "carries aw" and "keeps aw"
    and "buildTargetWith aw b t rule tr s = Some (out, s')"
    and "consistent s" and "buildPromises s t = Some InFlight" and "t \<notin> set (invoked s)"
  shows "consistent s'
     \<and> (\<forall>u \<in> set (invoked s'). u = t \<or> u \<in> set (invoked s) \<or> \<not> started (buildPromises s u))"
proof -
  let ?ctx = "makeContext b t rule tr"
  show ?thesis
  proof (cases "getRuleTargetType rule t ?ctx")
    case (Inl e)
    with assms(3,4) show ?thesis by (simp add: buildTargetWith_def Let_def)
  next
    case (Inr ty)
    show ?thesis
    proof (cases "currentMtime ty (outside s) t")
      case (Inl e)
      with Inr assms(3,4) show ?thesis by (simp add: buildTargetWith_def Let_def)
    next
      case cur: (Inr cur)
      from Inr cur assms(3) obtain o1 s1 where
        1: "buildAllWith aw b (prereqNames ?ctx) (buildRuleTrace ?ctx) s = Some (o1, s1)"
        by (auto simp: buildTargetWith_def Let_def split: option.splits)
      from buildAllWith_carries [OF assms(1) 1] have l: "later s s1" by simp
      from buildAllWith_keeps [OF assms(1,2) 1 assms(4)]
      have k: "consistent s1" "onlyNew s s1" by auto
      from l assms(5) have f: "buildPromises s1 t = Some InFlight" by (simp add: later_def)
      from k(2) assms(5,6) have ni: "t \<notin> set (invoked s1)"
        by (auto simp: onlyNew_def started_def)
      show ?thesis
      proof (cases o1)
        case (Resolved latest)
        with Inr cur 1 assms(3)
        have c: "completeTarget b t rule ?ctx ty cur latest s1 = (out, s')"
          by (simp add: buildTargetWith_def Let_def)
        from f have "started (buildPromises s1 t)" by (simp add: started_def)
        from completeTarget_keeps [OF c k(1) this ni] k(2)
        show ?thesis by (auto simp: onlyNew_def)
      next
        case (Rejected e)
        with Inr cur 1 assms(3) have "s' = s1" by (simp add: buildTargetWith_def Let_def)
        with k show ?thesis by (auto simp: onlyNew_def)
      next
        case Hangs
        with Inr cur 1 assms(3) have "s' = s1" by (simp add: buildTargetWith_def Let_def)
        with k show ?thesis by (auto simp: onlyNew_def)
      qed
    qed
  qed
qed

lemma consistent_running:
  assumes "consistent s" and "buildPromises s t = Some (Registered tr found)"
  shows "consistent (s\<lparr>buildPromises := (buildPromises s)(t \<mapsto> InFlight)\<rparr>)
     \<and> t \<notin> set (invoked s)"
  using assms by (auto simp: consistent_def started_def dom_def)

lemma consistent_settle:
  assumes "consistent s2" and "buildPromises s2 t = Some InFlight"
  shows "consistent (s2\<lparr>buildPromises := (buildPromises s2)(t \<mapsto> Finished out)\<rparr>)"
  using assms by (auto simp: consistent_def started_def dom_def)

lemma awaitWith_keeps:
  assumes "carries aw" and "keeps aw"
  shows "keeps (awaitWith aw)"
  unfolding keeps_def
proof (intro allI impI)
  fix b t s out s'
  assume r: "awaitWith aw b t s = Some (out, s')" and c: "consistent s"
  show "consistent s' \<and> onlyNew s s'"
  proof (cases "buildPromises s t")
    case None
    with r show ?thesis by (simp add: awaitWith_def)
  next
    case (Some p)
    show ?thesis
    proof (cases p)
      case InFlight
      with Some r c show ?thesis by (auto simp: awaitWith_def)
    next
      case (Finished x)
      with Some r c show ?thesis by (auto simp: awaitWith_def)
    next
      case (Registered tr found)
      let ?running = "s\<lparr>buildPromises := (buildPromises s)(t \<mapsto> InFlight)\<rparr>"
      let ?body = "case found of
                Inl e \<Rightarrow> Some (Rejected e, ?running)
              | Inr None \<Rightarrow> Some (buildWithoutRule t tr ?running)
              | Inr (Some rule) \<Rightarrow> buildTargetWith aw b t rule tr ?running"
      from Some Registered r have "settle t ?body = Some (out, s')"
        by (simp add: awaitWith_def Let_def)
      then obtain s2 where body: "?body = Some (out, s2)"
        and s': "s' = s2\<lparr>buildPromises := (buildPromises s2)(t \<mapsto> Finished out)\<rparr>"
        by (auto simp: settle_def split: option.splits)
      from consistent_running [OF c] Some Registered
      have cr: "consistent ?running" and ni: "t \<notin> set (invoked s)" by auto
      have "consistent s2 \<and> buildPromises s2 t = Some InFlight
         \<and> (\<forall>u \<in> set (invoked s2). u = t \<or> u \<in> set (invoked s) \<or> \<not> started (buildPromises ?running u))"
      proof (cases found)
        case (Inl e)
        with body cr show ?thesis by auto
      next
        case (Inr ro)
        show ?thesis
        proof (cases ro)
          case None
          with Inr body cr show ?thesis
            by (auto simp: buildWithoutRule_def split: sum.splits)
        next
          case (Some rule)
          with Inr body have bt: "buildTargetWith aw b t rule tr ?running = Some (out, s2)" by simp
          from buildTargetWith_later [OF assms(1) bt] have "buildPromises s2 t = Some InFlight"
            by (simp add: later_def)
          moreover from buildTargetWith_keeps [OF assms bt cr] ni
          have "consistent s2
            \<and> (\<forall>u \<in> set (invoked s2). u = t \<or> u \<in> set (invoked ?running) \<or> \<not> started (buildPromises ?running u))"
            by simp
          ultimately show ?thesis by simp
        qed
      qed
      then have c2: "consistent s2" and f2: "buildPromises s2 t = Some InFlight"
        and n2: "\<forall>u \<in> set (invoked s2). u = t \<or> u \<in> set (invoked s) \<or> \<not> started (buildPromises ?running u)"
        by auto
      have "consistent s'" unfolding s' using c2 f2 by (rule consistent_settle)
      moreover have "onlyNew s s'"
        unfolding onlyNew_def
      proof
        fix u assume "u \<in> set (invoked s')"
        then have "u \<in> set (invoked s2)" by (simp add: s')
        with n2 have "u = t \<or> u \<in> set (invoked s) \<or> \<not> started (buildPromises ?running u)" by blast
        then show "u \<in> set (invoked s) \<or> \<not> started (buildPromises s u)"
          using Some Registered by (auto simp: started_def split: if_splits)
      qed
      ultimately show ?thesis by simp
    qed
  qed
qed

lemma await_keeps: "keeps (await n)"
proof (induction n)
  case 0
  show ?case by (simp add: keeps_def)
next
  case (Suc n)
  then show ?case using await_carries [of n] by (simp add: awaitWith_keeps)
qed

lemma consistent_newBuilder: "consistent (newBuilder mode w)"
  by (simp add: consistent_def newBuilder_def)

subsection \<open>Lists of requests\<close>

lemma remdups_snoc: "remdups (ys @ [x]) = filter (\<lambda>y. y \<noteq> x) (remdups ys) @ [x]"
  by (induction ys) auto

lemma deduplicateFrom_filter:
  "deduplicateFrom seen xs = filter (\<lambda>x. x \<notin> seen) (rev (remdups (rev xs)))"
proof (induction xs arbitrary: seen)
  case Nil
  show ?case by simp
next
  case (Cons x xs)
  have "filter (\<lambda>y. y \<notin> insert x seen) (rev (remdups (rev xs)))
      = filter (\<lambda>y. y \<notin> seen) (filter (\<lambda>y. y \<noteq> x) (rev (remdups (rev xs))))"
    by (simp add: conj_commute)
  with Cons.IH show ?case
    by (auto simp: remdups_snoc rev_filter intro!: filter_cong)
qed

lemma deduplicate_remdups: "deduplicate xs = rev (remdups (rev xs))"
  by (simp add: deduplicate_def deduplicateFrom_filter)

lemma deduplicate_distinct: "distinct (deduplicate xs) \<and> set (deduplicate xs) = set xs"
  by (simp add: deduplicate_remdups)


lemma await_finished:
  "buildPromises s t = Some (Finished out) \<Longrightarrow> await (Suc n) b t s = Some (out, s)"
  by (simp add: awaitWith_def)

lemma foldl_max_ge: "x \<in> set ms \<Longrightarrow> (x::jsnum) \<le> foldl max z ms"
proof (induction ms arbitrary: z)
  case Nil
  then show ?case by simp
next
  case (Cons y ms)
  have mono: "z' \<le> foldl max z' ms" for z' :: jsnum
    by (induction ms arbitrary: z') (auto intro: order_trans [OF max.cobounded1])
  from Cons show ?case
    by (auto intro: order_trans [OF max.cobounded2 mono])
qed

lemma resolved_le_latest:
  assumes "list_all2 (resolvedAt s') ts ms" and "p \<in> set ts" and "resolvedAt s' p m'"
  shows "m' \<le> foldl max z ms"
proof -
  from assms(1,2) obtain m where "m \<in> set ms" "resolvedAt s' p m"
    by (induction ts ms rule: list_all2_induct) auto
  with assms(3) have "m' \<in> set ms" by (simp add: resolvedAt_def)
  then show ?thesis by (rule foldl_max_ge)
qed

subsection \<open>Resolved targets rest on resolved targets\<close>



















subsection \<open>Requests return\<close>

















section \<open>One promise for each target\<close>

text \<open>
  C1. A new Builder is consistent, and requests keep it so: in every state reached, a
  promise has been created at most once for each target (\<open>created\<close> has no
  duplicates and lists exactly the targets of the table) and the wrapped build function
  of each target has been called at most once (\<open>invoked\<close> has no duplicates).
  \<open>build\<close> for a target of the table returns the promise that is there and changes
  nothing; awaiting a promise that is done answers its stored outcome and changes
  nothing; and whatever further requests do, a promise that is done stays done with the
  same outcome. Calls are counted where the builder calls the wrapped build function
  (line 386); what a rule's own wrapper does with the function it is given is the rule's
  affair.
\<close>

theorem one_promise_per_target:
  "consistent (newBuilder mode w)
   \<and> (buildPromises s t \<noteq> None \<longrightarrow> build b t trace s = s)
   \<and> (buildPromises s t = Some (Finished out) \<longrightarrow> await (Suc n) b t s = Some (out, s))
   \<and> (consistent s \<longrightarrow> consistent (build b t trace s) \<and> later s (build b t trace s))
   \<and> (consistent s \<and> await n b t s = Some (out, s')
        \<longrightarrow> consistent s' \<and> later s s' \<and> answered s' t out)
   \<and> (consistent s \<and> buildAll n b names trace s = Some (out, s')
        \<longrightarrow> distinct (created s') \<and> distinct (invoked s') \<and> consistent s' \<and> later s s')"
proof (intro conjI impI)
  show "consistent (newBuilder mode w)"
    by (rule consistent_newBuilder)
  show "build b t trace s = s" if "buildPromises s t \<noteq> None"
    using that by (simp add: build_def)
  show "await (Suc n) b t s = Some (out, s)" if "buildPromises s t = Some (Finished out)"
    using that by (rule await_finished)
  show "consistent (build b t trace s)" if "consistent s"
    using consistent_build [OF that] by simp
  show "later s (build b t trace s)"
    by (rule later_build)
next
  assume a: "consistent s \<and> await n b t s = Some (out, s')"
  with await_keeps [of n] show "consistent s'"
    by (auto simp: keeps_def)
  from a await_carries [of n] show "later s s'" "answered s' t out"
    by (auto simp: carries_def)
next
  assume a: "consistent s \<and> buildAll n b names trace s = Some (out, s')"
  then have r: "buildAllWith (await n) b names trace s = Some (out, s')" and c: "consistent s"
    by (simp_all add: buildAll_def)
  from buildAllWith_keeps [OF await_carries await_keeps r c]
  show c': "consistent s'" by simp
  then show "distinct (created s')" "distinct (invoked s')"
    by (simp_all add: consistent_def)
  from buildAllWith_carries [OF await_carries r] show "later s s'" by simp
qed

text \<open>
  The diamond: \<open>shared\<close> is needed twice and built once, and asking for it again
  afterwards changes nothing.
\<close>

theorem one_promise_per_target_witness:
  "consistent (newBuilder None emptyDisk)
   \<and> consistent (build diamond ''d'' [''root''] (newBuilder None emptyDisk))
   \<and> map_option fst (buildAll 3 diamond [''d''] [''root''] (newBuilder None emptyDisk))
       = Some (Resolved (Fin 1000))
   \<and> created (snd (the (buildAll 3 diamond [''d''] [''root''] (newBuilder None emptyDisk))))
       = [''d'', ''e1'', ''e2'', ''shared'']
   \<and> invoked (snd (the (buildAll 3 diamond [''d''] [''root''] (newBuilder None emptyDisk))))
       = [''shared'', ''e1'', ''e2'', ''d'']
   \<and> consistent (snd (the (buildAll 3 diamond [''d''] [''root''] (newBuilder None emptyDisk))))
   \<and> build diamond ''shared'' [''again'']
        (snd (the (buildAll 3 diamond [''d''] [''root''] (newBuilder None emptyDisk))))
       = snd (the (buildAll 3 diamond [''d''] [''root''] (newBuilder None emptyDisk)))
   \<and> await 1 diamond ''shared''
        (snd (the (buildAll 3 diamond [''d''] [''root''] (newBuilder None emptyDisk))))
       = Some (Resolved (Fin 1000),
           snd (the (buildAll 3 diamond [''d''] [''root''] (newBuilder None emptyDisk))))
   \<and> answered (snd (the (buildAll 3 diamond [''d''] [''root''] (newBuilder None emptyDisk))))
        ''shared'' (Resolved (Fin 1000))"
proof -
  let ?s0 = "newBuilder None emptyDisk"
  let ?r = "buildAll 3 diamond [''d''] [''root''] ?s0"
  let ?S = "snd (the ?r)"
  have r: "?r = Some (Resolved (Fin 1000), ?S)"
    by (simp add: engine_defs project_defs numeral_3_eq_3)
  have f: "map_option fst ?r = Some (Resolved (Fin 1000))"
    by (simp add: engine_defs project_defs numeral_3_eq_3)
  have cr: "created ?S = [''d'', ''e1'', ''e2'', ''shared'']"
    by (simp add: engine_defs project_defs numeral_3_eq_3)
  have iv: "invoked ?S = [''shared'', ''e1'', ''e2'', ''d'']"
    by (simp add: engine_defs project_defs numeral_3_eq_3)
  have sh: "buildPromises ?S ''shared'' = Some (Finished (Resolved (Fin 1000)))"
    by (simp add: engine_defs project_defs numeral_3_eq_3)
  have c0: "consistent ?s0"
    using one_promise_per_target [of None emptyDisk] by simp
  from one_promise_per_target [where s = ?s0 and b = diamond and t = "''d''" and trace = "[''root'']"] c0
  have cb: "consistent (build diamond ''d'' [''root''] ?s0)" by simp
  from one_promise_per_target [where s = ?s0 and b = diamond and out = "Resolved (Fin 1000)"
      and n = 3 and s' = ?S and names = "[''d'']" and trace = "[''root'']"]
    c0 r
  have c: "consistent ?S" by simp
  from one_promise_per_target [where s = ?S and t = "''shared''" and b = diamond
      and trace = "[''again'']" and out = "Resolved (Fin 1000)" and n = 0] sh
  have b: "build diamond ''shared'' [''again''] ?S = ?S"
    and a: "await 1 diamond ''shared'' ?S = Some (Resolved (Fin 1000), ?S)"
    by simp_all
  from one_promise_per_target [where s = ?S and t = "''shared''" and b = diamond
      and out = "Resolved (Fin 1000)" and n = 1 and s' = ?S] c a
  have an: "answered ?S ''shared'' (Resolved (Fin 1000))" by simp
  from c0 cb f cr iv c b a an show ?thesis by (intro conjI)
qed

section \<open>The freshness oracle\<close>



section \<open>The alternate mtime function\<close>

text \<open>
  C5. The construction options may carry an alternate mtime function or none. Without
  one, and whenever the alternate function yields undefined for a path, the effective
  mtime of the path is what the filesystem oracle \<open>mtimeR\<close> reports; a number the
  alternate function yields is taken as it is.
\<close>

theorem alternate_mtime_falls_back:
  "effectiveMtime None w path onNF = mtimeR w path onNF PosInf
   \<and> (alternate w path = Inr None
        \<longrightarrow> effectiveMtime (Some alternate) w path onNF = mtimeR w path onNF PosInf)
   \<and> (alternate w path = Inr (Some m) \<longrightarrow> effectiveMtime (Some alternate) w path onNF = Inr m)"
  by (simp add: effectiveMtime_def)

text \<open>
  With the sidecar function of the test: without a sidecar file the file's own time
  counts, with one the number in it.
\<close>

theorem alternate_mtime_falls_back_witness:
  "makeSidecarMtimeFunction noSidecar (\<lambda>text. Fin 50) (\<lambda>p. p @ ''.mtime'') (threeFiles (Some 150)) ''c.txt''
     = Inr None
   \<and> effectiveMtime (Some (makeSidecarMtimeFunction noSidecar (\<lambda>text. Fin 50) (\<lambda>p. p @ ''.mtime'')))
        (threeFiles (Some 150)) ''c.txt'' (Value NegInf) = Inr (Fin 150)
   \<and> makeSidecarMtimeFunction (\<lambda>w p. Inr ''50'') (\<lambda>text. Fin 50) (\<lambda>p. p @ ''.mtime'')
        (threeFiles (Some 150)) ''c.txt'' = Inr (Some (Fin 50))
   \<and> effectiveMtime (Some (makeSidecarMtimeFunction (\<lambda>w p. Inr ''50'') (\<lambda>text. Fin 50) (\<lambda>p. p @ ''.mtime'')))
        (threeFiles (Some 150)) ''c.txt'' (Value NegInf) = Inr (Fin 50)"
proof -
  let ?w = "threeFiles (Some 150)"
  let ?none = "makeSidecarMtimeFunction noSidecar (\<lambda>text. Fin 50) (\<lambda>p. p @ ''.mtime'')"
  let ?some = "makeSidecarMtimeFunction (\<lambda>w p. Inr ''50'') (\<lambda>text. Fin 50) (\<lambda>p. p @ ''.mtime'')"
  have n: "?none ?w ''c.txt'' = Inr None"
    by (simp add: makeSidecarMtimeFunction_def noSidecar_def notFound_def)
  have s: "?some ?w ''c.txt'' = Inr (Some (Fin 50))"
    by (simp add: makeSidecarMtimeFunction_def)
  have m: "mtimeR ?w ''c.txt'' (Value NegInf) PosInf = Inr (Fin 150)"
    by (simp add: engine_defs project_defs)
  from alternate_mtime_falls_back [of ?w "''c.txt''" "Value NegInf" ?none] n m
  have a: "effectiveMtime (Some ?none) ?w ''c.txt'' (Value NegInf) = Inr (Fin 150)" by simp
  from alternate_mtime_falls_back [of ?w "''c.txt''" "Value NegInf" ?some "Fin 50"] s
  have b: "effectiveMtime (Some ?some) ?w ''c.txt'' (Value NegInf) = Inr (Fin 50)" by simp
  from n a s b show ?thesis by (intro conjI)
qed

section \<open>Failure of a build function\<close>




section \<open>Generated rules\<close>

text \<open>
  C4, evaluated. The field \<open>allTargetsPromise\<close> is read and never assigned, so every
  materialization calls the hook again: after two targets have been requested of a new
  Builder the hook has been called twice and nothing is cached.
\<close>

theorem generated_rules_fetched_again:
  "hookCalls (build b ''b.txt'' trace (build b ''a.txt'' trace (newBuilder mode w))) = 2
   \<and> allTargetsPromise (build b ''b.txt'' trace (build b ''a.txt'' trace (newBuilder mode w))) = None"
  by (simp add: build_def fetchBuildRuleForTarget_def fetchAllBuildRules_def newBuilder_def
        Let_def split: sum.split)

section \<open>Exit codes\<close>

text \<open>
  C9, evaluated. An argument that is not recognised makes \<open>parseCommandLineArgs\<close>
  reject, and \<open>processCommandLine\<close> passes the rejection on: no exit code comes back.
\<close>

theorem unrecognized_argument_rejects:
  "processCommandLine n b [''--bogus''] s
     = Some (Rejected (Error ''Error'' (UnrecognizedArgument ''--bogus'') None), s)"
  by (simp add: processCommandLine_def parseCommandLineArgs_def verbosityMatch_def isDigit_def
        startsWith_def endsWith_def Let_def)

section \<open>Requests for several targets\<close>



section \<open>To build or not to build\<close>



section \<open>The reported mtime\<close>

text \<open>
  C3, as the code has it. When \<open>buildTarget\<close> resolves after the target was built
  again, the reported mtime is the one read afresh after the build, \<open>+Infinity\<close> for a
  phony target. When the target was up to date, the reported mtime is the one read before
  the prerequisites were built, and it is not less than the mtime reported for any
  prerequisite of the rule. The maximum \<open>latest\<close> bounds what every prerequisite
  reports, but a target that was built again may report less than that.
\<close>

theorem reported_mtime:
  assumes "getRuleTargetType rule t (makeContext b t rule tr) = Inr ty"
    and "currentMtime ty (outside s) t = Inr cur"
    and "buildAll n b (prereqNames (makeContext b t rule tr))
           (buildRuleTrace (makeContext b t rule tr)) s = Some (Resolved latest, s1)"
    and "buildTarget n b t rule tr s = Some (Resolved m, s')"
  shows "(stale cur latest \<longrightarrow> rereadMtime ty (outside s') t = Inr m \<and> (ty = Phony \<longrightarrow> m = PosInf))
     \<and> (\<not> stale cur latest \<longrightarrow> m = cur \<and> latest \<le> m \<and> s' = s1)
     \<and> (\<forall>p m'. p \<in> set (prereqNames (makeContext b t rule tr)) \<and> resolvedAt s' p m'
           \<longrightarrow> m' \<le> latest)"
proof -
  let ?ctx = "makeContext b t rule tr"
  have r: "buildAllWith (await n) b (prereqNames ?ctx) (buildRuleTrace ?ctx) s
      = Some (Resolved latest, s1)"
    using assms(3) by (simp add: buildAll_def)
  have "buildTarget n b t rule tr s = Some (completeTarget b t rule ?ctx ty cur latest s1)"
    unfolding buildTarget_def using assms(1,2) r by (rule buildTargetWith_resolved)
  with assms(4) have c: "completeTarget b t rule ?ctx ty cur latest s1 = (Resolved m, s')"
    by simp
  have 1: "rereadMtime ty (outside s') t = Inr m \<and> (ty = Phony \<longrightarrow> m = PosInf)" if "stale cur latest"
    using c that
    by (auto simp: completeTarget_def stale_def rereadMtime_def Let_def
        split: sum.splits prod.splits option.splits if_splits)
  have 2: "m = cur \<and> latest \<le> m \<and> s' = s1" if "\<not> stale cur latest"
    using c completeTarget_fresh [OF that, of b t rule ?ctx ty s1] that
    by (auto simp: stale_def)
  from buildAllWith_carries [OF await_carries r]
  obtain ms where ms: "list_all2 (resolvedAt s1) (deduplicate (prereqNames ?ctx)) ms"
    and l: "latest = foldl max NegInf ms"
    by (auto simp: reported_def)
  from completeTarget_table [OF c] have same: "buildPromises s' = buildPromises s1" by simp
  have 3: "m' \<le> latest" if "p \<in> set (prereqNames ?ctx)" "resolvedAt s' p m'" for p m'
  proof -
    from that same have "p \<in> set (deduplicate (prereqNames ?ctx))" "resolvedAt s1 p m'"
      by (simp_all add: deduplicate_distinct resolvedAt_def)
    with ms show ?thesis unfolding l by (intro resolved_le_latest)
  qed
  from 1 2 3 show ?thesis by blast
qed

text \<open>
  At the small project: a rule that writes \<open>c.txt\<close> reports the time of writing; an
  up-to-date \<open>c.txt\<close> at 300 reports 300, not less than its prerequisites' 200.
\<close>

theorem reported_mtime_witness:
  "buildTarget 1 (project (writes ''c.txt'' [''a.txt'', ''b.txt''])) ''c.txt''
       (writes ''c.txt'' [''a.txt'', ''b.txt'']) [''root''] (newBuilder None (threeFiles (Some 150)))
     = Some (Resolved (Fin 1000),
          snd (the (buildTarget 1 (project (writes ''c.txt'' [''a.txt'', ''b.txt''])) ''c.txt''
       (writes ''c.txt'' [''a.txt'', ''b.txt'']) [''root''] (newBuilder None (threeFiles (Some 150))))))
   \<and> rereadMtime Auto (outside (snd (the (buildTarget 1 (project (writes ''c.txt'' [''a.txt'', ''b.txt''])) ''c.txt''
       (writes ''c.txt'' [''a.txt'', ''b.txt'']) [''root''] (newBuilder None (threeFiles (Some 150))))))) ''c.txt''
      = Inr (Fin 1000)
   \<and> buildTarget 1 (project fromAB) ''c.txt'' fromAB [''root''] (newBuilder None (threeFiles (Some 300)))
     = Some (Resolved (Fin 300),
          snd (the (buildAll 1 (project fromAB) [''a.txt'', ''b.txt''] [''root'', ''c.txt'']
            (newBuilder None (threeFiles (Some 300))))))
   \<and> resolvedAt (snd (the (buildAll 1 (project fromAB) [''a.txt'', ''b.txt''] [''root'', ''c.txt'']
            (newBuilder None (threeFiles (Some 300)))))) ''b.txt'' (Fin 200)
   \<and> Fin 200 \<le> Fin 300"
proof -
  let ?rule = "writes ''c.txt'' [''a.txt'', ''b.txt'']"
  let ?b = "project ?rule"
  let ?s = "newBuilder None (threeFiles (Some 150))"
  let ?s' = "snd (the (buildTarget 1 ?b ''c.txt'' ?rule [''root''] ?s))"
  let ?s1 = "snd (the (buildAll 1 ?b [''a.txt'', ''b.txt''] [''root'', ''c.txt''] ?s))"
  have h: "getRuleTargetType ?rule ''c.txt'' (makeContext ?b ''c.txt'' ?rule [''root'']) = Inr Auto"
    "currentMtime Auto (outside ?s) ''c.txt'' = Inr (Fin 150)"
    "buildAll 1 ?b (prereqNames (makeContext ?b ''c.txt'' ?rule [''root'']))
           (buildRuleTrace (makeContext ?b ''c.txt'' ?rule [''root''])) ?s
       = Some (Resolved (Fin 200), ?s1)"
    "buildTarget 1 ?b ''c.txt'' ?rule [''root''] ?s = Some (Resolved (Fin 1000), ?s')"
    by (simp_all add: engine_defs project_defs)
  let ?c = "project fromAB"
  let ?u = "newBuilder None (threeFiles (Some 300))"
  let ?u1 = "snd (the (buildAll 1 ?c [''a.txt'', ''b.txt''] [''root'', ''c.txt''] ?u))"
  let ?u' = "snd (the (buildTarget 1 ?c ''c.txt'' fromAB [''root''] ?u))"
  have g: "getRuleTargetType fromAB ''c.txt'' (makeContext ?c ''c.txt'' fromAB [''root'']) = Inr Auto"
    "currentMtime Auto (outside ?u) ''c.txt'' = Inr (Fin 300)"
    "buildAll 1 ?c (prereqNames (makeContext ?c ''c.txt'' fromAB [''root'']))
           (buildRuleTrace (makeContext ?c ''c.txt'' fromAB [''root''])) ?u
       = Some (Resolved (Fin 200), ?u1)"
    "buildTarget 1 ?c ''c.txt'' fromAB [''root''] ?u = Some (Resolved (Fin 300), ?u')"
    by (simp_all add: engine_defs project_defs)
  have ra: "resolvedAt ?u1 ''b.txt'' (Fin 200)"
    by (simp add: resolvedAt_def engine_defs project_defs)
  from reported_mtime [OF h] have a: "rereadMtime Auto (outside ?s') ''c.txt'' = Inr (Fin 1000)"
    by (simp add: stale_def)
  from reported_mtime [OF g] have b: "Fin 200 \<le> Fin 300 \<and> ?u' = ?u1"
    by (simp add: stale_def)
  with g(4) have c: "buildTarget 1 ?c ''c.txt'' fromAB [''root''] ?u = Some (Resolved (Fin 300), ?u1)"
    by simp
  from h(4) a c ra b show ?thesis by (intro conjI) simp_all
qed

text \<open>
  The claim as stated fails when building does not make the target newer: the rule for
  \<open>c.txt\<close> below has no build function, the target is taken as built, and the 150
  reported for it is less than the 200 reported for its prerequisite \<open>b.txt\<close>.
\<close>

theorem reported_mtime_counterexample:
  "map_option fst (buildAll 2 (project fromAB) [''c.txt''] [''root'']
        (newBuilder None (threeFiles (Some 150)))) = Some (Resolved (Fin 150))
   \<and> buildPromises (snd (the (buildAll 2 (project fromAB) [''c.txt''] [''root'']
        (newBuilder None (threeFiles (Some 150)))))) ''b.txt'' = Some (Finished (Resolved (Fin 200)))
   \<and> invoked (snd (the (buildAll 2 (project fromAB) [''c.txt''] [''root'']
        (newBuilder None (threeFiles (Some 150))))))  = [''c.txt'']
   \<and> \<not> Fin 200 \<le> Fin 150"
  by (simp add: engine_defs project_defs numeral_2_eq_2)

section \<open>Failures of prerequisites\<close>




end
